theory Spec2Isabelle
  imports Main
begin

section \<open>Date math (packages/grafana-data/src/datetime/datemath.ts)\<close>

text \<open>
  A shallow embedding of \<^verbatim>\<open>datemath.ts\<close>. A JavaScript string is a \<open>string\<close>: a list of
  code units, of which the eight-bit ones are representable. The DateTime object that the
  evaluator mutates in place is a value of a type \<open>'t\<close>; its methods come from
  \<^verbatim>\<open>moment_wrapper\<close>, which the module imports, and are the fields of a record that every
  function takes as its first argument. A function that mutates the DateTime it was handed
  returns a pair: what the source returns (\<open>None\<close> for \<^verbatim>\<open>undefined\<close>) and the state of the
  handed object when the call is over.
\<close>

subsection \<open>JavaScript values and string primitives\<close>

text \<open>What \<^verbatim>\<open>getNum\<close> can return: \<^verbatim>\<open>undefined\<close>, or a number, which may be \<^verbatim>\<open>NaN\<close>.\<close>

datatype number = Undefined | NaN | Num int

text \<open>The first argument of \<^verbatim>\<open>isMathString\<close> and \<^verbatim>\<open>parse\<close>:
  a string, a DateTime, a Date, or none (\<^verbatim>\<open>null\<close>, \<^verbatim>\<open>undefined\<close>).\<close>

datatype ('t, 'd) input = Str string | IsDateTime 't | IsDate 'd | Nullish

definition isDigit :: "char \<Rightarrow> bool" where
  "isDigit c = (c \<in> set ''0123456789'')"

text \<open>The class \<^verbatim>\<open>\s\<close> of a regular expression, on eight-bit code units:
  tab, line feed, vertical tab, form feed, carriage return, space, no-break space.\<close>

definition isWhiteSpace :: "char \<Rightarrow> bool" where
  "isWhiteSpace c = (of_char c \<in> set [9, 10, 11, 12, 13, 32, 160 :: nat])"

definition digitVal :: "char \<Rightarrow> nat" where
  "digitVal c = of_char c - 48"

text \<open>\<^verbatim>\<open>s.charAt(i)\<close>: the empty string out of range.\<close>

definition charAt :: "string \<Rightarrow> nat \<Rightarrow> string" where
  "charAt s i = (if i < length s then [s ! i] else [])"

text \<open>\<^verbatim>\<open>s.substring(a, b)\<close>: both indices clamped to the length, and swapped when \<open>a > b\<close>.\<close>

definition substring :: "string \<Rightarrow> nat \<Rightarrow> nat \<Rightarrow> string" where
  "substring s a b =
     (let a' = min a (length s); b' = min b (length s);
          lo = min a' b'; hi = max a' b'
      in take (hi - lo) (drop lo s))"

text \<open>\<^verbatim>\<open>s.substring(a)\<close>.\<close>

definition substringFrom :: "string \<Rightarrow> nat \<Rightarrow> string" where
  "substringFrom s a = drop a s"

fun startsWith :: "string \<Rightarrow> string \<Rightarrow> bool" where
  "startsWith s [] = True"
| "startsWith [] (p # ps) = False"
| "startsWith (c # cs) (p # ps) = (c = p \<and> startsWith cs ps)"

fun includesStr :: "string \<Rightarrow> string \<Rightarrow> bool" where
  "includesStr [] sub = (sub = [])"
| "includesStr (c # cs) sub = (startsWith (c # cs) sub \<or> includesStr cs sub)"

text \<open>\<^verbatim>\<open>s.split('||')\<close>: the pieces between the occurrences of the separator, found left to
  right without overlap; \<open>acc\<close> is the piece being read, reversed.\<close>

fun splitAcc :: "string \<Rightarrow> string \<Rightarrow> string list" where
  "splitAcc acc [] = [rev acc]"
| "splitAcc acc [c] = [rev (c # acc)]"
| "splitAcc acc (c # d # cs) =
     (if c = CHR ''|'' \<and> d = CHR ''|'' then rev acc # splitAcc [] cs
      else splitAcc (c # acc) (d # cs))"

definition split :: "string \<Rightarrow> string list" where
  "split s = splitAcc [] s"

text \<open>\<^verbatim>\<open>parseInt(s, 10)\<close>: leading white space, an optional sign, then the longest run of
  digits; \<^verbatim>\<open>NaN\<close> when that run is empty.\<close>

definition digitsVal :: "string \<Rightarrow> nat" where
  "digitsVal ds = foldl (\<lambda>a c. 10 * a + digitVal c) 0 ds"

definition parseInt :: "string \<Rightarrow> number" where
  "parseInt str =
     (let s1 = dropWhile isWhiteSpace str;
          neg = (s1 \<noteq> [] \<and> hd s1 = CHR ''-'');
          s2 = (if s1 \<noteq> [] \<and> (hd s1 = CHR ''-'' \<or> hd s1 = CHR ''+'') then tl s1 else s1);
          ds = takeWhile isDigit s2
      in if ds = [] then NaN
         else Num ((if neg then - 1 else 1) * int (digitsVal ds)))"

text \<open>JavaScript's \<^verbatim>\<open>%\<close> on integers: the remainder has the sign of the dividend.\<close>

definition js_rem :: "int \<Rightarrow> int \<Rightarrow> int" where
  "js_rem a b = sgn a * (\<bar>a\<bar> mod \<bar>b\<bar>)"

subsection \<open>The calendar collaborator\<close>

text \<open>
  The methods of a DateTime and the constructors of \<^verbatim>\<open>moment_wrapper\<close> that the module
  calls. Each mutating method is a function from the state of the object to its new state.
  \<open>add\<close> and \<open>subtract\<close> receive whatever \<^verbatim>\<open>getNum\<close> returned.
\<close>

record ('t, 'd) calendar =
  add :: "number \<Rightarrow> string \<Rightarrow> 't \<Rightarrow> 't"
  subtract :: "number \<Rightarrow> string \<Rightarrow> 't \<Rightarrow> 't"
  startOf :: "string \<Rightarrow> 't \<Rightarrow> 't"
  endOf :: "string \<Rightarrow> 't \<Rightarrow> 't"
  month :: "'t \<Rightarrow> int"
  dateTimeForTimeZone :: "string option \<Rightarrow> 't"
  dateTimeISO :: "string \<Rightarrow> 't"
  dateTimeOfDate :: "'d \<Rightarrow> 't"

subsection \<open>Constants\<close>

definition UNITS :: "string list" where
  "UNITS = [''y'', ''M'', ''w'', ''d'', ''h'', ''m'', ''s'', ''Q'']"

definition MATH_OP_TYPE_MAP :: "string \<Rightarrow> nat option" where
  "MATH_OP_TYPE_MAP = map_of [(''/'', 0), (''+'', 1), (''-'', 2)]"

definition MAX_DATE_MATH_STRING_LENGTH :: nat where
  "MAX_DATE_MATH_STRING_LENGTH = 10"

definition NOW_STRING :: string where
  "NOW_STRING = ''now''"

subsection \<open>isMathString\<close>

fun isMathString :: "('t, 'd) input \<Rightarrow> bool" where
  "isMathString (Str text) = (startsWith text NOW_STRING \<or> includesStr text ''||'')"
| "isMathString _ = False"

subsection \<open>isNumber\<close>

text \<open>The test of \<^verbatim>\<open>/^-?\d+\.?\d*$/\<close>: an optional minus sign, one digit or more, then
  nothing, or a dot and digits only.\<close>

definition isNumber :: "string \<Rightarrow> bool" where
  "isNumber input =
     (let s1 = (if input \<noteq> [] \<and> hd input = CHR ''-'' then tl input else input);
          ds = takeWhile isDigit s1;
          r = dropWhile isDigit s1
      in ds \<noteq> [] \<and> (r = [] \<or> (hd r = CHR ''.'' \<and> list_all isDigit (tl r))))"

subsection \<open>roundToFiscal\<close>

text \<open>
  The round-up branch calls the function itself with \<^verbatim>\<open>roundUp = false\<close> and chains
  \<^verbatim>\<open>.add(..).endOf('M')\<close> on what it returns. Were that \<^verbatim>\<open>undefined\<close> the source would
  throw; the nested call has the same unit, \<open>y\<close> or \<open>Q\<close>, so it returns the DateTime, and
  the \<open>None\<close> branch of the \<open>case\<close> below is never taken (\<open>roundToFiscal_down_returns\<close>).
\<close>

function roundToFiscal ::
  "('t, 'd) calendar \<Rightarrow> int \<Rightarrow> 't \<Rightarrow> string \<Rightarrow> bool \<Rightarrow> 't option \<times> 't" where
  "roundToFiscal cal fyStartMonth dateTime unit roundUp =
     (if unit = ''y'' then
        (if roundUp then
           (case roundToFiscal cal fyStartMonth dateTime unit False of
              (Some d, _) \<Rightarrow>
                (let d' = endOf cal ''M'' (add cal (Num 11) ''M'' d) in (Some d', d'))
            | (None, d) \<Rightarrow> (None, d))
         else
           (let d' = startOf cal ''M''
                  (subtract cal (Num (js_rem (month cal dateTime - fyStartMonth + 12) 12)) ''M''
                     dateTime)
            in (Some d', d')))
      else if unit = ''Q'' then
        (if roundUp then
           (case roundToFiscal cal fyStartMonth dateTime unit False of
              (Some d, _) \<Rightarrow>
                (let d' = endOf cal ''M'' (add cal (Num 2) ''M'' d) in (Some d', d'))
            | (None, d) \<Rightarrow> (None, d))
         else
           (let d' = startOf cal ''M''
                  (subtract cal (Num (js_rem (month cal dateTime - fyStartMonth + 3) 3)) ''M''
                     dateTime)
            in (Some d', d')))
      else (None, dateTime))"
  by pat_completeness auto
termination
  by (relation "measure (\<lambda>(cal, fy, d, u, roundUp). if roundUp then 1 else 0)") auto

declare roundToFiscal.simps [simp del]

subsection \<open>parseDateMath\<close>

text \<open>\<^verbatim>\<open>nextChar\<close>: the character under the cursor, and the cursor moved past it.\<close>

definition nextChar :: "string \<Rightarrow> nat \<Rightarrow> string \<times> nat" where
  "nextChar strippedMathString i = (charAt strippedMathString i, i + 1)"

text \<open>
  The \<^verbatim>\<open>while\<close> loop of \<^verbatim>\<open>getNum\<close>: it goes on while the character read is not a
  number, and returns \<^verbatim>\<open>undefined\<close> from inside once the cursor is past
  \<open>MAX_DATE_MATH_STRING_LENGTH\<close>. The result says whether it returned from inside, and
  where the cursor is.
\<close>

function getNumWhile :: "string \<Rightarrow> nat \<Rightarrow> bool \<times> nat" where
  "getNumWhile strippedMathString i =
     (case nextChar strippedMathString i of (c, i') \<Rightarrow>
        if \<not> isNumber c then
          (if i' > MAX_DATE_MATH_STRING_LENGTH then (True, i')
           else getNumWhile strippedMathString i')
        else (False, i'))"
  by pat_completeness auto
termination
  by (relation "measure (\<lambda>(s, i). Suc MAX_DATE_MATH_STRING_LENGTH - i)")
     (auto simp: nextChar_def MAX_DATE_MATH_STRING_LENGTH_def)

declare getNumWhile.simps [simp del]

definition getNum :: "string \<Rightarrow> nat \<Rightarrow> number \<times> nat" where
  "getNum strippedMathString i =
     (if \<not> isNumber (charAt strippedMathString i) then (Num 1, i)
      else if length strippedMathString = 2 then (parseInt (charAt strippedMathString i), i)
      else
        (let numFrom = i in
         case getNumWhile strippedMathString i of
           (True, i') \<Rightarrow> (Undefined, i')
         | (False, i') \<Rightarrow> (parseInt (substring strippedMathString numFrom i'), i')))"

text \<open>The \<^verbatim>\<open>while (i < len)\<close> loop of \<^verbatim>\<open>parseDateMath\<close>, from cursor \<open>i\<close> and
  the DateTime in state \<open>dateTime\<close>. Every branch of the \<^verbatim>\<open>switch\<close> falls through to
  the next round of the loop, with the DateTime as that branch left it.\<close>

function parseLoop ::
  "('t, 'd) calendar \<Rightarrow> string \<Rightarrow> bool \<Rightarrow> int \<Rightarrow> nat \<Rightarrow> 't \<Rightarrow> 't option \<times> 't" where
  "parseLoop cal strippedMathString roundUp fiscalYearStartMonth i dateTime =
     (if i < length strippedMathString then
        (case nextChar strippedMathString i of (c, i1) \<Rightarrow>
         let type = MATH_OP_TYPE_MAP c in
         case getNum strippedMathString i1 of (num, i2) \<Rightarrow>
         case nextChar strippedMathString i2 of (char, i3) \<Rightarrow>
         let isFiscal = (char = ''f'') in
         case (if isFiscal then nextChar strippedMathString i3 else (char, i3)) of (unit, i4) \<Rightarrow>
         if type = None \<or> (type = Some 0 \<and> num \<noteq> Num 1) \<or> unit \<notin> set UNITS then
           (None, dateTime)
         else
           parseLoop cal strippedMathString roundUp fiscalYearStartMonth i4
             (if type = Some 0 then
                (if isFiscal then
                   snd (roundToFiscal cal fiscalYearStartMonth dateTime unit roundUp)
                 else if roundUp then endOf cal unit dateTime
                 else startOf cal unit dateTime)
              else if type = Some 1 then add cal num unit dateTime
              else if type = Some 2 then subtract cal num unit dateTime
              else dateTime))
      else (Some dateTime, dateTime))"
  by pat_completeness auto

lemma getNumWhile_cursor: "i < snd (getNumWhile s i)"
proof (induction s i rule: getNumWhile.induct)
  case (1 s i)
  show ?case
  proof (cases "\<not> isNumber (charAt s i) \<and> \<not> i + 1 > MAX_DATE_MATH_STRING_LENGTH")
    case True
    then have "i + 1 < snd (getNumWhile s (i + 1))"
      using "1.IH" [of "charAt s i" "i + 1"] by (simp add: nextChar_def)
    moreover have "getNumWhile s i = getNumWhile s (i + 1)"
      using True by (subst getNumWhile.simps) (simp add: nextChar_def)
    ultimately show ?thesis by simp
  next
    case False
    then show ?thesis
      by (subst getNumWhile.simps) (auto simp: nextChar_def)
  qed
qed

lemma getNum_cursor: "i \<le> snd (getNum s i)"
proof -
  have "i \<le> snd (getNumWhile s i)"
    using getNumWhile_cursor [of i s] by simp
  then show ?thesis
    by (auto simp: getNum_def Let_def split: prod.splits bool.splits)
qed

lemma getNum_cursor_pair: "(num, i2) = getNum s i \<Longrightarrow> i \<le> i2"
  using getNum_cursor [of i s] by (metis snd_conv)

termination parseLoop
proof (relation "measure (\<lambda>(cal, s, roundUp, fy, i, t). length s - i)", goal_cases)
  case 1
  show ?case by simp
next
  case (2 cal s roundUp fy i t c i1 ty num i2 ch i3 isFiscal unt i4)
  have a: "i1 = i + 1"
    using 2(2) by (simp add: nextChar_def)
  have b: "i1 \<le> i2"
    using 2(4) by (rule getNum_cursor_pair)
  have c: "i3 = i2 + 1"
    using 2(5) by (simp add: nextChar_def)
  have d: "i3 \<le> i4"
    using 2(7) by (simp add: nextChar_def split: if_splits)
  show ?case
    using 2(1) a b c d by simp
qed

declare parseLoop.simps [simp del]

text \<open>\<^verbatim>\<open>parseDateMath\<close>: white space is removed first
  (\<^verbatim>\<open>mathString.replace(/\s/g, '')\<close>); the loop starts at cursor 0.
  \<^verbatim>\<open>roundUp\<close> is a boolean (\<^verbatim>\<open>undefined\<close> counts as false).\<close>

definition removeWhiteSpace :: "string \<Rightarrow> string" where
  "removeWhiteSpace s = filter (\<lambda>c. \<not> isWhiteSpace c) s"

definition parseDateMath ::
  "('t, 'd) calendar \<Rightarrow> string \<Rightarrow> 't \<Rightarrow> bool \<Rightarrow> int \<Rightarrow> 't option \<times> 't" where
  "parseDateMath cal mathString time roundUp fiscalYearStartMonth =
     (let strippedMathString = removeWhiteSpace mathString
      in parseLoop cal strippedMathString roundUp fiscalYearStartMonth 0 time)"

subsection \<open>parse\<close>

text \<open>
  The closures \<^verbatim>\<open>getTime\<close> and \<^verbatim>\<open>getMathString\<close> take what they capture as arguments.
  \<open>right\<close> is the second piece of the split, \<open>None\<close> when there is one piece only.
\<close>

definition getTime ::
  "('t, 'd) calendar \<Rightarrow> string option \<Rightarrow> string \<Rightarrow> string \<Rightarrow> string option \<Rightarrow> 't" where
  "getTime cal timezone text left right =
     (if startsWith text NOW_STRING then dateTimeForTimeZone cal timezone
      else dateTimeISO cal (if right = None \<or> right = Some [] then text else left))"

definition getMathString :: "string \<Rightarrow> string option \<Rightarrow> string" where
  "getMathString text right =
     (if startsWith text NOW_STRING then substringFrom text (length NOW_STRING)
      else (case right of None \<Rightarrow> [] | Some r \<Rightarrow> r))"

text \<open>\<^verbatim>\<open>fiscalYearStartMonth\<close> is optional here; \<^verbatim>\<open>parseDateMath\<close> takes 0 when it is
  \<^verbatim>\<open>undefined\<close>. The DateTime is made inside, so the returned value is all there is.\<close>

fun parse ::
  "('t, 'd) calendar \<Rightarrow> ('t, 'd) input \<Rightarrow> bool \<Rightarrow> string option \<Rightarrow> int option \<Rightarrow> 't option" where
  "parse cal (IsDateTime d) roundUp timezone fiscalYearStartMonth = Some d"
| "parse cal (IsDate d) roundUp timezone fiscalYearStartMonth = Some (dateTimeOfDate cal d)"
| "parse cal Nullish roundUp timezone fiscalYearStartMonth = None"
| "parse cal (Str text) roundUp timezone fiscalYearStartMonth =
     (if text = [] then None
      else
        (let pieces = split text;
             left = hd pieces;
             right = (if length pieces < 2 then None else Some (pieces ! 1));
             time = getTime cal timezone text left right;
             mathString = getMathString text right
         in if mathString = [] then Some time
            else fst (parseDateMath cal mathString time roundUp
                        (case fiscalYearStartMonth of None \<Rightarrow> 0 | Some m \<Rightarrow> m))))"

subsection \<open>One round of the loop\<close>

text \<open>
  The body of the \<^verbatim>\<open>while\<close> loop in three parts, for the proofs: what one round reads at
  cursor \<open>i\<close> (operator type, count, fiscal flag, unit, new cursor), the test that returns
  \<^verbatim>\<open>undefined\<close>, and the \<^verbatim>\<open>switch\<close>. \<open>parseLoop_round\<close> shows that the loop is these
  three, repeated.
\<close>

definition readOp :: "string \<Rightarrow> nat \<Rightarrow> nat option \<times> number \<times> bool \<times> string \<times> nat" where
  "readOp s i =
     (case nextChar s i of (c, i1) \<Rightarrow>
      case getNum s i1 of (num, i2) \<Rightarrow>
      case nextChar s i2 of (char, i3) \<Rightarrow>
      case (if char = ''f'' then nextChar s i3 else (char, i3)) of (unit, i4) \<Rightarrow>
        (MATH_OP_TYPE_MAP c, num, char = ''f'', unit, i4))"

definition rejected :: "nat option \<Rightarrow> number \<Rightarrow> string \<Rightarrow> bool" where
  "rejected type num unit = (type = None \<or> (type = Some 0 \<and> num \<noteq> Num 1) \<or> unit \<notin> set UNITS)"

definition applyOp ::
  "('t, 'd) calendar \<Rightarrow> bool \<Rightarrow> int \<Rightarrow> nat option \<Rightarrow> number \<Rightarrow> bool \<Rightarrow> string \<Rightarrow> 't \<Rightarrow> 't" where
  "applyOp cal roundUp fiscalYearStartMonth type num isFiscal unit dateTime =
     (if type = Some 0 then
        (if isFiscal then snd (roundToFiscal cal fiscalYearStartMonth dateTime unit roundUp)
         else if roundUp then endOf cal unit dateTime
         else startOf cal unit dateTime)
      else if type = Some 1 then add cal num unit dateTime
      else if type = Some 2 then subtract cal num unit dateTime
      else dateTime)"

subsection \<open>The grammar of the specification\<close>

text \<open>
  Section 6 of the specification gives the math string a grammar:
  \<^verbatim>\<open>operation := operator [count] ["f"] unit\<close>, the operator one of \<^verbatim>\<open>/ + -\<close>, the
  count a run of at most ten digits, the unit one of the eight unit codes, and a round
  operation with no count but 1. \<open>specOperationLength\<close> follows these words: it gives
  the length of the operation a string starts with, if it starts with one.
  \<open>specMathString\<close> holds of the strings that are operations one after the other.
\<close>

definition specOperationLength :: "string \<Rightarrow> nat option" where
  "specOperationLength s =
     (case s of
        [] \<Rightarrow> None
      | c # r \<Rightarrow>
          if c \<notin> set ''/+-'' then None
          else
            (let count = takeWhile isDigit r;
                 r1 = dropWhile isDigit r;
                 fiscal = (r1 \<noteq> [] \<and> hd r1 = CHR ''f'');
                 r2 = (if fiscal then tl r1 else r1)
             in if length count \<le> 10 \<and> r2 \<noteq> [] \<and> [hd r2] \<in> set UNITS
                   \<and> (c = CHR ''/'' \<longrightarrow> count = [] \<or> digitsVal count = 1)
                then Some (1 + length count + (if fiscal then 1 else 0) + 1)
                else None))"

lemma specOperationLength_pos: "specOperationLength s = Some k \<Longrightarrow> 0 < k"
  by (auto simp: specOperationLength_def Let_def split: list.splits if_splits)

function specMathString :: "string \<Rightarrow> bool" where
  "specMathString s =
     (if s = [] then True
      else (case specOperationLength s of
              None \<Rightarrow> False
            | Some k \<Rightarrow> specMathString (drop k s)))"
  by pat_completeness auto
termination
  by (relation "measure length") (auto dest: specOperationLength_pos)

declare specMathString.simps [simp del]

subsection \<open>A calendar to evaluate with\<close>

text \<open>
  Modelled from the spec: \<^verbatim>\<open>moment_wrapper\<close> (the DateTime with \<^verbatim>\<open>add\<close>,
  \<^verbatim>\<open>subtract\<close>, \<^verbatim>\<open>startOf\<close>, \<^verbatim>\<open>endOf\<close>, \<^verbatim>\<open>month\<close> and its constructors) is
  imported by the module and is not part of it. The theorems below hold for every calendar;
  this one gives them concrete inputs. A DateTime is a number of milliseconds since
  1970-01-01T00:00:00Z, read in UTC on the proleptic Gregorian calendar, with weeks that
  start on Sunday. Months and years are added on the civil date, the day of the month
  clamped to the length of the month reached; \<^verbatim>\<open>endOf\<close> is the last millisecond before
  the next \<^verbatim>\<open>startOf\<close>. A count that is not a number shifts nothing. The clock reading
  and the ISO-8601 reader are arguments.
\<close>

definition msPerDay :: int where
  "msPerDay = 86400000"

definition daysFromCivil :: "int \<Rightarrow> int \<Rightarrow> int \<Rightarrow> int" where
  "daysFromCivil y m d =
     (let y' = (if m \<le> 2 then y - 1 else y);
          era = y' div 400;
          yoe = y' - era * 400;
          doy = (153 * (if m > 2 then m - 3 else m + 9) + 2) div 5 + d - 1;
          doe = yoe * 365 + yoe div 4 - yoe div 100 + doy
      in era * 146097 + doe - 719468)"

definition civilFromDays :: "int \<Rightarrow> int \<times> int \<times> int" where
  "civilFromDays z =
     (let z' = z + 719468;
          era = z' div 146097;
          doe = z' - era * 146097;
          yoe = (doe - doe div 1460 + doe div 36524 - doe div 146096) div 365;
          doy = doe - (365 * yoe + yoe div 4 - yoe div 100);
          mp = (5 * doy + 2) div 153;
          d = doy - (153 * mp + 2) div 5 + 1;
          m = (if mp < 10 then mp + 3 else mp - 9);
          y = yoe + era * 400
      in (if m \<le> 2 then y + 1 else y, m, d))"

definition daysInMonth :: "int \<Rightarrow> int \<Rightarrow> int" where
  "daysInMonth y m =
     (if m = 2 then
        (if y mod 400 = 0 then 29 else if y mod 100 = 0 then 28
         else if y mod 4 = 0 then 29 else 28)
      else if m = 4 \<or> m = 6 \<or> m = 9 \<or> m = 11 then 30 else 31)"

definition addMonths :: "int \<Rightarrow> int \<Rightarrow> int" where
  "addMonths n t =
     (case civilFromDays (t div msPerDay) of (y, m, d) \<Rightarrow>
        let total = y * 12 + (m - 1) + n;
            y2 = total div 12;
            m2 = total mod 12 + 1;
            d2 = min d (daysInMonth y2 m2)
        in daysFromCivil y2 m2 d2 * msPerDay + t mod msPerDay)"

definition utcAddInt :: "int \<Rightarrow> string \<Rightarrow> int \<Rightarrow> int" where
  "utcAddInt n u t =
     (if u = ''y'' then addMonths (12 * n) t
      else if u = ''Q'' then addMonths (3 * n) t
      else if u = ''M'' then addMonths n t
      else if u = ''w'' then t + n * (7 * msPerDay)
      else if u = ''d'' then t + n * msPerDay
      else if u = ''h'' then t + n * 3600000
      else if u = ''m'' then t + n * 60000
      else if u = ''s'' then t + n * 1000
      else t)"

definition utcAdd :: "number \<Rightarrow> string \<Rightarrow> int \<Rightarrow> int" where
  "utcAdd num u t = (case num of Num n \<Rightarrow> utcAddInt n u t | _ \<Rightarrow> t)"

definition utcSubtract :: "number \<Rightarrow> string \<Rightarrow> int \<Rightarrow> int" where
  "utcSubtract num u t = (case num of Num n \<Rightarrow> utcAddInt (- n) u t | _ \<Rightarrow> t)"

definition utcStartOf :: "string \<Rightarrow> int \<Rightarrow> int" where
  "utcStartOf u t =
     (let days = t div msPerDay in
      case civilFromDays days of (y, m, d) \<Rightarrow>
        if u = ''y'' then daysFromCivil y 1 1 * msPerDay
        else if u = ''Q'' then daysFromCivil y (m - (m - 1) mod 3) 1 * msPerDay
        else if u = ''M'' then daysFromCivil y m 1 * msPerDay
        else if u = ''w'' then (days - (days + 4) mod 7) * msPerDay
        else if u = ''d'' then days * msPerDay
        else if u = ''h'' then t - t mod 3600000
        else if u = ''m'' then t - t mod 60000
        else if u = ''s'' then t - t mod 1000
        else t)"

definition utcEndOf :: "string \<Rightarrow> int \<Rightarrow> int" where
  "utcEndOf u t = (if u \<in> set UNITS then utcAddInt 1 u (utcStartOf u t) - 1 else t)"

definition utcMonth :: "int \<Rightarrow> int" where
  "utcMonth t = (case civilFromDays (t div msPerDay) of (y, m, d) \<Rightarrow> m - 1)"

definition utcCalendar :: "int \<Rightarrow> (string \<Rightarrow> int) \<Rightarrow> (int, int) calendar" where
  "utcCalendar clock isoReader =
     \<lparr> add = utcAdd, subtract = utcSubtract, startOf = utcStartOf, endOf = utcEndOf,
       month = utcMonth, dateTimeForTimeZone = (\<lambda>tz. clock), dateTimeISO = isoReader,
       dateTimeOfDate = (\<lambda>d. d) \<rparr>"

section \<open>Lemmas about the primitives and one round\<close>

lemma removeWhiteSpace_simps [simp]:
  "removeWhiteSpace [] = []"
  "removeWhiteSpace (c # s) = (if isWhiteSpace c then removeWhiteSpace s else c # removeWhiteSpace s)"
  "removeWhiteSpace (p @ q) = removeWhiteSpace p @ removeWhiteSpace q"
  by (simp_all add: removeWhiteSpace_def)

lemma isNumber_Nil: "isNumber [] = False"
  by (simp add: isNumber_def)

lemma isNumber_single: "isNumber [c] = isDigit c"
  by (auto simp: isNumber_def isDigit_def)

lemma isNumber_charAt: "isNumber (charAt s i) = (i < length s \<and> isDigit (s ! i))"
  by (simp add: charAt_def isNumber_Nil isNumber_single)

lemma isDigit_not_space: "isDigit c \<Longrightarrow> \<not> isWhiteSpace c"
  by (auto simp: isDigit_def isWhiteSpace_def)

lemma parseInt_digit: "isDigit c \<Longrightarrow> parseInt [c] = Num (int (digitVal c))"
  by (auto simp: parseInt_def Let_def isDigit_def isWhiteSpace_def digitsVal_def)

lemma substring_one: "i < length s \<Longrightarrow> substring s i (Suc i) = [s ! i]"
  by (simp add: substring_def Let_def min_def max_def take_Suc_conv_app_nth Cons_nth_drop_Suc [symmetric])

lemma getNumWhile_digit:
  "i < length s \<Longrightarrow> isDigit (s ! i) \<Longrightarrow> getNumWhile s i = (False, Suc i)"
  by (subst getNumWhile.simps) (simp add: nextChar_def isNumber_charAt)

lemma getNum_no_digit:
  "\<not> (i < length s \<and> isDigit (s ! i)) \<Longrightarrow> getNum s i = (Num 1, i)"
  by (simp add: getNum_def isNumber_charAt)

lemma getNum_digit_two:
  "i < length s \<Longrightarrow> isDigit (s ! i) \<Longrightarrow> length s = 2 \<Longrightarrow>
   getNum s i = (Num (int (digitVal (s ! i))), i)"
  by (simp add: getNum_def isNumber_charAt parseInt_digit) (simp add: charAt_def parseInt_digit)

lemma getNum_digit:
  "i < length s \<Longrightarrow> isDigit (s ! i) \<Longrightarrow> length s \<noteq> 2 \<Longrightarrow>
   getNum s i = (Num (int (digitVal (s ! i))), Suc i)"
  by (simp add: getNum_def isNumber_charAt getNumWhile_digit substring_one parseInt_digit)


lemma parseLoop_round:
  "parseLoop cal s roundUp fy i t =
     (if i < length s then
        (case readOp s i of (type, num, isFiscal, unit, i') \<Rightarrow>
           if rejected type num unit then (None, t)
           else parseLoop cal s roundUp fy i' (applyOp cal roundUp fy type num isFiscal unit t))
      else (Some t, t))"
proof (cases "getNum s (Suc i)")
  case (Pair num i2)
  show ?thesis
    by (subst parseLoop.simps)
       (simp add: readOp_def nextChar_def Pair rejected_def applyOp_def Let_def)
qed

lemma parseLoop_end: "length s \<le> i \<Longrightarrow> parseLoop cal s roundUp fy i t = (Some t, t)"
  by (subst parseLoop.simps) simp

lemma parseLoop_reject:
  "i < length s \<Longrightarrow> readOp s i = (type, num, isFiscal, unit, i') \<Longrightarrow> rejected type num unit \<Longrightarrow>
   parseLoop cal s roundUp fy i t = (None, t)"
  by (subst parseLoop_round) simp

lemma parseLoop_accept:
  "i < length s \<Longrightarrow> readOp s i = (type, num, isFiscal, unit, i') \<Longrightarrow> \<not> rejected type num unit \<Longrightarrow>
   parseLoop cal s roundUp fy i t =
     parseLoop cal s roundUp fy i' (applyOp cal roundUp fy type num isFiscal unit t)"
  by (subst parseLoop_round) simp


lemma units_checked:
  "list_all (\<lambda>u. case u of [c] \<Rightarrow> \<not> isDigit c \<and> c \<noteq> CHR ''f'' \<and> \<not> isWhiteSpace c | _ \<Rightarrow> False) UNITS"
  by (simp add: UNITS_def isDigit_def isWhiteSpace_def)

lemma unit_shape:
  "u \<in> set UNITS \<Longrightarrow> \<exists>c. u = [c] \<and> \<not> isDigit c \<and> c \<noteq> CHR ''f'' \<and> \<not> isWhiteSpace c"
  using units_checked unfolding list_all_iff by (fastforce split: list.splits)

lemma op_not_space: "MATH_OP_TYPE_MAP [c] \<noteq> None \<Longrightarrow> \<not> isWhiteSpace c"
  by (auto simp: MATH_OP_TYPE_MAP_def isWhiteSpace_def split: if_splits)

lemma readOp_short:
  "length s \<le> Suc i \<Longrightarrow> readOp s i = (MATH_OP_TYPE_MAP (charAt s i), Num 1, False, [], Suc (Suc i))"
  by (simp add: readOp_def nextChar_def getNum_no_digit charAt_def)

lemma readOp_plain:
  "Suc i < length s \<Longrightarrow> \<not> isDigit (s ! Suc i) \<Longrightarrow> s ! Suc i \<noteq> CHR ''f'' \<Longrightarrow>
   readOp s i = (MATH_OP_TYPE_MAP [s ! i], Num 1, False, [s ! Suc i], Suc (Suc i))"
  by (simp add: readOp_def nextChar_def getNum_no_digit charAt_def)

lemma readOp_fiscal:
  "Suc i < length s \<Longrightarrow> s ! Suc i = CHR ''f'' \<Longrightarrow>
   readOp s i = (MATH_OP_TYPE_MAP [s ! i], Num 1, True, charAt s (Suc (Suc i)), Suc (Suc (Suc i)))"
proof -
  assume a: "Suc i < length s" and f: "s ! Suc i = CHR ''f''"
  have "\<not> isDigit (s ! Suc i)"
    by (simp add: f isDigit_def)
  then have "getNum s (Suc i) = (Num 1, Suc i)"
    by (simp add: getNum_no_digit)
  then show ?thesis
    using a f by (simp add: readOp_def nextChar_def charAt_def)
qed

lemma readOp_two:
  "Suc i < length s \<Longrightarrow> isDigit (s ! Suc i) \<Longrightarrow> length s = 2 \<Longrightarrow>
   readOp s i = (MATH_OP_TYPE_MAP [s ! i], Num (int (digitVal (s ! Suc i))), False, [s ! Suc i], Suc (Suc i))"
proof -
  assume a: "Suc i < length s" and d: "isDigit (s ! Suc i)" and l: "length s = 2"
  have "s ! Suc i \<noteq> CHR ''f''"
    using d by (auto simp: isDigit_def)
  then show ?thesis
    using a d l by (simp add: readOp_def nextChar_def charAt_def getNum_digit_two)
qed

lemma readOp_count:
  "Suc i < length s \<Longrightarrow> isDigit (s ! Suc i) \<Longrightarrow> length s \<noteq> 2 \<Longrightarrow>
   charAt s (Suc (Suc i)) \<noteq> ''f'' \<Longrightarrow>
   readOp s i = (MATH_OP_TYPE_MAP [s ! i], Num (int (digitVal (s ! Suc i))), False,
                 charAt s (Suc (Suc i)), Suc (Suc (Suc i)))"
  by (simp add: readOp_def nextChar_def getNum_digit) (simp add: charAt_def)

lemma readOp_count_fiscal:
  "Suc i < length s \<Longrightarrow> isDigit (s ! Suc i) \<Longrightarrow> length s \<noteq> 2 \<Longrightarrow>
   charAt s (Suc (Suc i)) = ''f'' \<Longrightarrow>
   readOp s i = (MATH_OP_TYPE_MAP [s ! i], Num (int (digitVal (s ! Suc i))), True,
                 charAt s (Suc (Suc (Suc i))), Suc (Suc (Suc (Suc i))))"
  by (simp add: readOp_def nextChar_def getNum_digit) (simp add: charAt_def)

text \<open>Math strings of one operation: operator and unit, with a one-digit count, with a
  one-digit count and the fiscal flag.\<close>

lemma strip_id: "\<forall>c\<in>set s. \<not> isWhiteSpace c \<Longrightarrow> removeWhiteSpace s = s"
  by (induction s) auto

lemma parse_op_unit:
  assumes "MATH_OP_TYPE_MAP [c] = Some k" and "u \<in> set UNITS"
  shows "parseDateMath cal (c # u) t roundUp fy =
         (Some (applyOp cal roundUp fy (Some k) (Num 1) False u t),
          applyOp cal roundUp fy (Some k) (Num 1) False u t)"
proof -
  obtain x where u: "u = [x]" and x: "\<not> isDigit x" "x \<noteq> CHR ''f''" "\<not> isWhiteSpace x"
    using unit_shape [OF assms(2)] by blast
  have c: "\<not> isWhiteSpace c"
    using assms(1) by (simp add: op_not_space)
  have s: "removeWhiteSpace [c, x] = [c, x]"
    using c x by simp
  have r: "readOp [c, x] 0 = (Some k, Num 1, False, [x], 2)"
    using readOp_plain [of 0 "[c, x]"] x assms(1) by simp
  have a: "\<not> rejected (Some k) (Num 1) [x]"
    using assms(2) u by (simp add: rejected_def)
  have "parseLoop cal [c, x] roundUp fy 0 t =
        parseLoop cal [c, x] roundUp fy 2
          (applyOp cal roundUp fy (Some k) (Num 1) False [x] t)"
    using parseLoop_accept [OF _ r a] by simp
  then have "parseLoop cal [c, x] roundUp fy 0 t =
        (Some (applyOp cal roundUp fy (Some k) (Num 1) False [x] t),
         applyOp cal roundUp fy (Some k) (Num 1) False [x] t)"
    by (simp add: parseLoop_end)
  then show ?thesis
    by (simp only: parseDateMath_def u Let_def s)
qed

lemma parse_op_digit_unit:
  assumes "MATH_OP_TYPE_MAP [c] = Some k" and "u \<in> set UNITS" and "isDigit d"
    and "k = 0 \<longrightarrow> d = CHR ''1''"
  shows "parseDateMath cal (c # d # u) t roundUp fy =
         (Some (applyOp cal roundUp fy (Some k) (Num (int (digitVal d))) False u t),
          applyOp cal roundUp fy (Some k) (Num (int (digitVal d))) False u t)"
proof -
  obtain x where u: "u = [x]" and x: "\<not> isDigit x" "x \<noteq> CHR ''f''" "\<not> isWhiteSpace x"
    using unit_shape [OF assms(2)] by blast
  have c: "\<not> isWhiteSpace c"
    using assms(1) by (simp add: op_not_space)
  have s: "removeWhiteSpace [c, d, x] = [c, d, x]"
    using c x assms(3) by (simp add: isDigit_not_space)
  have r: "readOp [c, d, x] 0 = (Some k, Num (int (digitVal d)), False, [x], 3)"
    using readOp_count [of 0 "[c, d, x]"] x assms(1,3) by (simp add: charAt_def numeral_3_eq_3)
  have a: "\<not> rejected (Some k) (Num (int (digitVal d))) [x]"
    using assms(2,4) u by (auto simp: rejected_def digitVal_def)
  have "parseLoop cal [c, d, x] roundUp fy 0 t =
        parseLoop cal [c, d, x] roundUp fy 3
          (applyOp cal roundUp fy (Some k) (Num (int (digitVal d))) False [x] t)"
    using parseLoop_accept [OF _ r a] by simp
  then have "parseLoop cal [c, d, x] roundUp fy 0 t =
        (Some (applyOp cal roundUp fy (Some k) (Num (int (digitVal d))) False [x] t),
         applyOp cal roundUp fy (Some k) (Num (int (digitVal d))) False [x] t)"
    by (simp add: parseLoop_end)
  then show ?thesis
    by (simp only: parseDateMath_def u Let_def s)
qed

lemma parse_op_digit_fiscal_unit:
  assumes "MATH_OP_TYPE_MAP [c] = Some k" and "u \<in> set UNITS" and "isDigit d"
    and "k = 0 \<longrightarrow> d = CHR ''1''"
  shows "parseDateMath cal (c # d # CHR ''f'' # u) t roundUp fy =
         (Some (applyOp cal roundUp fy (Some k) (Num (int (digitVal d))) True u t),
          applyOp cal roundUp fy (Some k) (Num (int (digitVal d))) True u t)"
proof -
  obtain x where u: "u = [x]" and x: "\<not> isDigit x" "x \<noteq> CHR ''f''" "\<not> isWhiteSpace x"
    using unit_shape [OF assms(2)] by blast
  have c: "\<not> isWhiteSpace c"
    using assms(1) by (simp add: op_not_space)
  have f: "\<not> isWhiteSpace CHR ''f''"
    by (simp add: isWhiteSpace_def)
  have s: "removeWhiteSpace [c, d, CHR ''f'', x] = [c, d, CHR ''f'', x]"
    using c x f assms(3) by (simp add: isDigit_not_space)
  have r: "readOp [c, d, CHR ''f'', x] 0 = (Some k, Num (int (digitVal d)), True, [x], 4)"
    using readOp_count_fiscal [of 0 "[c, d, CHR ''f'', x]"] x assms(1,3)
    by (simp add: charAt_def numeral_eq_Suc)
  have a: "\<not> rejected (Some k) (Num (int (digitVal d))) [x]"
    using assms(2,4) u by (auto simp: rejected_def digitVal_def)
  have "parseLoop cal [c, d, CHR ''f'', x] roundUp fy 0 t =
        parseLoop cal [c, d, CHR ''f'', x] roundUp fy 4
          (applyOp cal roundUp fy (Some k) (Num (int (digitVal d))) True [x] t)"
    using parseLoop_accept [OF _ r a] by simp
  then have "parseLoop cal [c, d, CHR ''f'', x] roundUp fy 0 t =
        (Some (applyOp cal roundUp fy (Some k) (Num (int (digitVal d))) True [x] t),
         applyOp cal roundUp fy (Some k) (Num (int (digitVal d))) True [x] t)"
    by (simp add: parseLoop_end)
  then show ?thesis
    by (simp only: parseDateMath_def u Let_def s)
qed

lemma digit_not_unit: "isDigit d \<Longrightarrow> [d] \<notin> set UNITS"
  using unit_shape [of "[d]"] by auto

lemma digit_not_one: "isDigit d \<Longrightarrow> d \<noteq> CHR ''1'' \<Longrightarrow> int (digitVal d) \<noteq> 1"
  by (auto simp: isDigit_def digitVal_def)

lemma digit_not_f: "isDigit d \<Longrightarrow> d \<noteq> CHR ''f''"
  by (auto simp: isDigit_def)

lemma round_bad_count:
  assumes u: "u \<in> set UNITS" and ne: "ds \<noteq> []" and dg: "list_all isDigit ds" and n1: "ds \<noteq> ''1''"
  shows "parseDateMath cal (CHR ''/'' # ds @ u) t roundUp fy = (None, t)"
proof -
  obtain x where ux: "u = [x]" and x: "\<not> isDigit x" "x \<noteq> CHR ''f''" "\<not> isWhiteSpace x"
    using unit_shape [OF u] by blast
  let ?s = "CHR ''/'' # ds @ [x]"
  obtain d rest where ds: "ds = d # rest"
    using ne by (cases ds) auto
  have d: "isDigit d" and rest: "list_all isDigit rest"
    using dg ds by simp_all
  have sl: "\<not> isWhiteSpace CHR ''/''"
    by (simp add: isWhiteSpace_def)
  have "\<forall>c\<in>set ?s. \<not> isWhiteSpace c"
    using dg x(3) sl by (auto simp: list_all_iff isDigit_not_space)
  then have s: "removeWhiteSpace ?s = ?s"
    by (rule strip_id)
  have len: "length ?s \<noteq> 2"
    using ds by simp
  have op: "MATH_OP_TYPE_MAP [?s ! 0] = Some 0"
    by (simp add: MATH_OP_TYPE_MAP_def)
  have nf: "charAt ?s (Suc (Suc 0)) \<noteq> ''f''"
    using x rest ds by (cases rest) (auto simp: charAt_def digit_not_f)
  have r: "readOp ?s 0 = (Some 0, Num (int (digitVal d)), False, charAt ?s (Suc (Suc 0)), 3)"
    using readOp_count [of 0 ?s, OF _ _ len nf] d ds op by (simp add: numeral_3_eq_3)
  have "rejected (Some 0) (Num (int (digitVal d))) (charAt ?s (Suc (Suc 0)))"
  proof (cases rest)
    case Nil
    then have "d \<noteq> CHR ''1''"
      using n1 ds by simp
    then show ?thesis
      using digit_not_one [OF d] by (simp add: rejected_def)
  next
    case (Cons d2 rest2)
    then have "isDigit d2"
      using rest by simp
    then show ?thesis
      using Cons ds by (simp add: rejected_def charAt_def digit_not_unit)
  qed
  then have "parseLoop cal ?s roundUp fy 0 t = (None, t)"
    using parseLoop_reject [OF _ r] by simp
  then show ?thesis
    by (simp only: parseDateMath_def ux Let_def s)
qed


lemma startsWith_iff: "startsWith s p \<longleftrightarrow> (\<exists>r. s = p @ r)"
  by (induction s p rule: startsWith.induct) auto

lemma includesStr_iff: "includesStr s sub \<longleftrightarrow> (\<exists>a b. s = a @ sub @ b)"
proof (induction s)
  case Nil
  show ?case by auto
next
  case (Cons c cs)
  have "(\<exists>a b. c # cs = a @ sub @ b) \<longleftrightarrow> (\<exists>b. c # cs = sub @ b) \<or> (\<exists>a b. cs = a @ sub @ b)"
  proof
    assume "\<exists>a b. c # cs = a @ sub @ b"
    then obtain a b where ab: "c # cs = a @ sub @ b" by blast
    show "(\<exists>b. c # cs = sub @ b) \<or> (\<exists>a b. cs = a @ sub @ b)"
    proof (cases a)
      case Nil
      then show ?thesis using ab by auto
    next
      case (Cons x a')
      then have "cs = a' @ sub @ b" using ab by simp
      then show ?thesis by blast
    qed
  next
    assume "(\<exists>b. c # cs = sub @ b) \<or> (\<exists>a b. cs = a @ sub @ b)"
    then show "\<exists>a b. c # cs = a @ sub @ b"
    proof
      assume "\<exists>b. c # cs = sub @ b"
      then obtain b where "c # cs = [] @ sub @ b" by auto
      then show ?thesis by blast
    next
      assume "\<exists>a b. cs = a @ sub @ b"
      then obtain a b where "c # cs = (c # a) @ sub @ b" by auto
      then show ?thesis by blast
    qed
  qed
  then show ?case
    using Cons.IH by (simp add: startsWith_iff)
qed


lemma op_char: "MATH_OP_TYPE_MAP [c] \<noteq> None \<longleftrightarrow> c \<in> set ''/+-''"
  by (auto simp: MATH_OP_TYPE_MAP_def)

lemma op_slash: "MATH_OP_TYPE_MAP [CHR ''/''] = Some 0"
  by (simp add: MATH_OP_TYPE_MAP_def)

lemma unit_charAt: "charAt s j \<in> set UNITS \<Longrightarrow> j < length s \<and> [s ! j] \<in> set UNITS"
  using unit_shape [of "charAt s j"] by (auto simp: charAt_def split: if_splits)

lemma unit_nth: "[x] \<in> set UNITS \<Longrightarrow> \<not> isDigit x \<and> x \<noteq> CHR ''f''"
  using unit_shape [of "[x]"] by auto

lemma drop2: "Suc i < length s \<Longrightarrow> drop i s = s ! i # s ! Suc i # drop (Suc (Suc i)) s"
  by (simp add: Cons_nth_drop_Suc Suc_lessD)

lemma drop3:
  "Suc (Suc i) < length s \<Longrightarrow>
   drop i s = s ! i # s ! Suc i # s ! Suc (Suc i) # drop (Suc (Suc (Suc i))) s"
  by (simp add: Cons_nth_drop_Suc Suc_lessD)

lemma drop4:
  "Suc (Suc (Suc i)) < length s \<Longrightarrow>
   drop i s = s ! i # s ! Suc i # s ! Suc (Suc i) # s ! Suc (Suc (Suc i))
                # drop (Suc (Suc (Suc (Suc i)))) s"
  by (simp add: Cons_nth_drop_Suc Suc_lessD)

lemma digitsVal_single: "digitsVal [d] = digitVal d"
  by (simp add: digitsVal_def)

text \<open>Every accepted round consumed one operation of the grammar.\<close>

lemma accepted_round_is_operation:
  assumes i: "i < length s" and r: "readOp s i = (type, num, isFiscal, unit, i')"
    and a: "\<not> rejected type num unit"
  shows "specOperationLength (drop i s) = Some (i' - i) \<and> i < i' \<and> i' \<le> length s"
proof -
  have u: "unit \<in> set UNITS" and ty: "type \<noteq> None" and rd: "type = Some 0 \<longrightarrow> num = Num 1"
    using a by (auto simp: rejected_def)
  show ?thesis
  proof (cases "Suc i < length s")
    case False
    then have "unit = []"
      using readOp_short [of s i] r by simp
    then show ?thesis
      using u unit_shape [of unit] by auto
  next
    case long: True
    have opc: "type = MATH_OP_TYPE_MAP [s ! i]"
      using r i by (auto simp: readOp_def nextChar_def charAt_def split: prod.splits)
    then have c: "s ! i \<in> set ''/+-''"
      using ty op_char [of "s ! i"] by simp
    show ?thesis
    proof (cases "isDigit (s ! Suc i)")
      case nd: False
      show ?thesis
      proof (cases "s ! Suc i = CHR ''f''")
        case False
        have "readOp s i = (MATH_OP_TYPE_MAP [s ! i], Num 1, False, [s ! Suc i], Suc (Suc i))"
          using readOp_plain [OF long nd False] .
        then have e: "unit = [s ! Suc i]" "i' = Suc (Suc i)"
          using r by simp_all
        have "specOperationLength (drop i s) = Some 2"
          using c nd False u e(1)
          by (simp add: drop2 [OF long] specOperationLength_def Let_def)
        then show ?thesis
          using e long by simp
      next
        case f: True
        have "readOp s i = (MATH_OP_TYPE_MAP [s ! i], Num 1, True, charAt s (Suc (Suc i)), Suc (Suc (Suc i)))"
          using readOp_fiscal [OF long f] .
        then have e: "unit = charAt s (Suc (Suc i))" "i' = Suc (Suc (Suc i))"
          using r by simp_all
        have l3: "Suc (Suc i) < length s" and u3: "[s ! Suc (Suc i)] \<in> set UNITS"
          using unit_charAt [of s "Suc (Suc i)"] u e(1) by simp_all
        have "specOperationLength (drop i s) = Some 3"
          using c nd f u3 unit_nth [OF u3]
          by (simp add: drop3 [OF l3] specOperationLength_def Let_def)
        then show ?thesis
          using e l3 by simp
      qed
    next
      case d: True
      show ?thesis
      proof (cases "length s = 2")
        case True
        have "readOp s i = (MATH_OP_TYPE_MAP [s ! i], Num (int (digitVal (s ! Suc i))), False, [s ! Suc i], Suc (Suc i))"
          using readOp_two [OF long d True] .
        then have "unit = [s ! Suc i]"
          using r by simp
        then show ?thesis
          using u digit_not_unit [OF d] by simp
      next
        case n2: False
        show ?thesis
        proof (cases "charAt s (Suc (Suc i)) = ''f''")
          case False
          have "readOp s i = (MATH_OP_TYPE_MAP [s ! i], Num (int (digitVal (s ! Suc i))), False,
                 charAt s (Suc (Suc i)), Suc (Suc (Suc i)))"
            using readOp_count [OF long d n2 False] .
          then have e: "unit = charAt s (Suc (Suc i))" "i' = Suc (Suc (Suc i))"
              "num = Num (int (digitVal (s ! Suc i)))"
            using r by simp_all
          have l3: "Suc (Suc i) < length s" and u3: "[s ! Suc (Suc i)] \<in> set UNITS"
            using unit_charAt [of s "Suc (Suc i)"] u e(1) by simp_all
          have one: "s ! i = CHR ''/'' \<longrightarrow> digitVal (s ! Suc i) = 1"
            using rd opc e(3) op_slash by auto
          have "specOperationLength (drop i s) = Some 3"
            using c d u3 unit_nth [OF u3] one
            by (simp add: drop3 [OF l3] specOperationLength_def Let_def digitsVal_single)
          then show ?thesis
            using e l3 by simp
        next
          case f: True
          have "readOp s i = (MATH_OP_TYPE_MAP [s ! i], Num (int (digitVal (s ! Suc i))), True,
                 charAt s (Suc (Suc (Suc i))), Suc (Suc (Suc (Suc i))))"
            using readOp_count_fiscal [OF long d n2 f] .
          then have e: "unit = charAt s (Suc (Suc (Suc i)))" "i' = Suc (Suc (Suc (Suc i)))"
              "num = Num (int (digitVal (s ! Suc i)))"
            using r by simp_all
          have l4: "Suc (Suc (Suc i)) < length s" and u4: "[s ! Suc (Suc (Suc i))] \<in> set UNITS"
            using unit_charAt [of s "Suc (Suc (Suc i))"] u e(1) by simp_all
          have f2: "s ! Suc (Suc i) = CHR ''f''"
            using f by (auto simp: charAt_def split: if_splits)
          have one: "s ! i = CHR ''/'' \<longrightarrow> digitVal (s ! Suc i) = 1"
            using rd opc e(3) op_slash by auto
          have "specOperationLength (drop i s) = Some 4"
            using c d f2 u4 unit_nth [OF u4] one
            by (simp add: drop4 [OF l4] specOperationLength_def Let_def digitsVal_single digit_not_f isDigit_def)
          then show ?thesis
            using e l4 by simp
        qed
      qed
    qed
  qed
qed

lemma charAt_append: "j < length p \<Longrightarrow> charAt (p @ q) j = charAt p j"
  by (simp add: charAt_def nth_append)

text \<open>An accepted round reads inside the string: what follows the string does not change it.\<close>

lemma accepted_round_append:
  assumes i: "i < length p" and r: "readOp p i = (type, num, isFiscal, unit, i')"
    and u: "unit \<in> set UNITS"
  shows "readOp (p @ q) i = (type, num, isFiscal, unit, i')"
proof (cases "Suc i < length p")
  case False
  then have "unit = []"
    using readOp_short [of p i] r by simp
  then show ?thesis
    using u unit_shape [of unit] by auto
next
  case long: True
  then have longq: "Suc i < length (p @ q)"
    by simp
  have n0: "(p @ q) ! i = p ! i" and n1: "(p @ q) ! Suc i = p ! Suc i"
    using long by (simp_all add: nth_append)
  show ?thesis
  proof (cases "isDigit (p ! Suc i)")
    case nd: False
    show ?thesis
    proof (cases "p ! Suc i = CHR ''f''")
      case False
      show ?thesis
        using readOp_plain [OF long nd False] readOp_plain [OF longq, unfolded n1, OF nd False] r
        by (simp add: n0)
    next
      case f: True
      have e: "unit = charAt p (Suc (Suc i))"
        using readOp_fiscal [OF long f] r by simp
      then have "Suc (Suc i) < length p"
        using unit_charAt [of p "Suc (Suc i)"] u by simp
      then have "charAt (p @ q) (Suc (Suc i)) = charAt p (Suc (Suc i))"
        by (rule charAt_append)
      then show ?thesis
        using readOp_fiscal [OF long f] readOp_fiscal [OF longq, unfolded n1, OF f] r
        by (simp add: n0)
    qed
  next
    case d: True
    show ?thesis
    proof (cases "length p = 2")
      case True
      have "unit = [p ! Suc i]"
        using readOp_two [OF long d True] r by simp
      then show ?thesis
        using u digit_not_unit [OF d] by simp
    next
      case n2: False
      show ?thesis
      proof (cases "charAt p (Suc (Suc i)) = ''f''")
        case False
        have e: "unit = charAt p (Suc (Suc i))"
          using readOp_count [OF long d n2 False] r by simp
        then have l3: "Suc (Suc i) < length p"
          using unit_charAt [of p "Suc (Suc i)"] u by simp
        then have c2: "charAt (p @ q) (Suc (Suc i)) = charAt p (Suc (Suc i))"
          by (rule charAt_append)
        have n2q: "length (p @ q) \<noteq> 2"
          using l3 by simp
        have "readOp (p @ q) i = (MATH_OP_TYPE_MAP [(p @ q) ! i],
                Num (int (digitVal ((p @ q) ! Suc i))), False,
                charAt (p @ q) (Suc (Suc i)), Suc (Suc (Suc i)))"
          using longq n2q d False by (intro readOp_count) (simp_all add: n1 c2)
        then show ?thesis
          using readOp_count [OF long d n2 False] r by (simp add: n0 n1 c2)
      next
        case f: True
        have e: "unit = charAt p (Suc (Suc (Suc i)))"
          using readOp_count_fiscal [OF long d n2 f] r by simp
        then have l4: "Suc (Suc (Suc i)) < length p"
          using unit_charAt [of p "Suc (Suc (Suc i))"] u by simp
        then have c3: "charAt (p @ q) (Suc (Suc (Suc i))) = charAt p (Suc (Suc (Suc i)))"
          by (rule charAt_append)
        have c2: "charAt (p @ q) (Suc (Suc i)) = charAt p (Suc (Suc i))"
          using l4 by (intro charAt_append) simp
        have n2q: "length (p @ q) \<noteq> 2"
          using l4 by simp
        have "readOp (p @ q) i = (MATH_OP_TYPE_MAP [(p @ q) ! i],
                Num (int (digitVal ((p @ q) ! Suc i))), True,
                charAt (p @ q) (Suc (Suc (Suc i))), Suc (Suc (Suc (Suc i))))"
          using longq n2q d f by (intro readOp_count_fiscal) (simp_all add: n1 c2)
        then show ?thesis
          using readOp_count_fiscal [OF long d n2 f] r by (simp add: n0 n1 c3)
      qed
    qed
  qed
qed

text \<open>The loop on a string that is accepted, run on a longer string: it reaches the end of the
  accepted part with the same DateTime.\<close>

lemma parseLoop_append:
  "fst (parseLoop cal p roundUp fy i t) = Some t1 \<Longrightarrow> i \<le> length p \<Longrightarrow>
   parseLoop cal (p @ q) roundUp fy i t = parseLoop cal (p @ q) roundUp fy (length p) t1"
proof (induction "length p - i" arbitrary: i t rule: less_induct)
  case less
  show ?case
  proof (cases "i < length p")
    case False
    then have "i = length p"
      using less.prems(2) by simp
    moreover have "parseLoop cal p roundUp fy i t = (Some t, t)"
      using False by (simp add: parseLoop_end)
    ultimately show ?thesis
      using less.prems(1) by simp
  next
    case True
    obtain type num isFiscal unit i' where r: "readOp p i = (type, num, isFiscal, unit, i')"
      by (cases "readOp p i") auto
    have a: "\<not> rejected type num unit"
    proof
      assume "rejected type num unit"
      then have "parseLoop cal p roundUp fy i t = (None, t)"
        using parseLoop_reject [OF True r] by simp
      then show False
        using less.prems(1) by simp
    qed
    have b: "i < i'" "i' \<le> length p"
      using accepted_round_is_operation [OF True r a] by simp_all
    have u: "unit \<in> set UNITS"
      using a by (simp add: rejected_def)
    let ?t = "applyOp cal roundUp fy type num isFiscal unit t"
    have s1: "parseLoop cal p roundUp fy i t = parseLoop cal p roundUp fy i' ?t"
      using parseLoop_accept [OF True r a] .
    have rq: "readOp (p @ q) i = (type, num, isFiscal, unit, i')"
      using accepted_round_append [OF True r u] .
    have iq: "i < length (p @ q)"
      using True by simp
    have s2: "parseLoop cal (p @ q) roundUp fy i t = parseLoop cal (p @ q) roundUp fy i' ?t"
      using parseLoop_accept [OF iq rq a] .
    have "parseLoop cal (p @ q) roundUp fy i' ?t = parseLoop cal (p @ q) roundUp fy (length p) t1"
    proof (rule less.hyps)
      show "length p - i' < length p - i"
        using b True by simp
      show "fst (parseLoop cal p roundUp fy i' ?t) = Some t1"
        using less.prems(1) s1 by simp
      show "i' \<le> length p"
        using b by simp
    qed
    then show ?thesis
      using s2 by simp
  qed
qed

text \<open>Whatever the loop accepts is a sentence of the grammar.\<close>

lemma parseLoop_accepts_grammar:
  "fst (parseLoop cal s roundUp fy i t) \<noteq> None \<Longrightarrow> i \<le> length s \<Longrightarrow> specMathString (drop i s)"
proof (induction "length s - i" arbitrary: i t rule: less_induct)
  case less
  show ?case
  proof (cases "i < length s")
    case False
    then show ?thesis
      using less.prems(2) by (subst specMathString.simps) simp
  next
    case True
    obtain type num isFiscal unit i' where r: "readOp s i = (type, num, isFiscal, unit, i')"
      by (cases "readOp s i") auto
    have a: "\<not> rejected type num unit"
    proof
      assume "rejected type num unit"
      then have "parseLoop cal s roundUp fy i t = (None, t)"
        using parseLoop_reject [OF True r] by simp
      then show False
        using less.prems(1) by simp
    qed
    have b: "specOperationLength (drop i s) = Some (i' - i)" "i < i'" "i' \<le> length s"
      using accepted_round_is_operation [OF True r a] by simp_all
    let ?t = "applyOp cal roundUp fy type num isFiscal unit t"
    have s1: "parseLoop cal s roundUp fy i t = parseLoop cal s roundUp fy i' ?t"
      using parseLoop_accept [OF True r a] .
    have "specMathString (drop i' s)"
    proof (rule less.hyps)
      show "length s - i' < length s - i"
        using b True by simp
      show "fst (parseLoop cal s roundUp fy i' ?t) \<noteq> None"
        using less.prems(1) s1 by simp
      show "i' \<le> length s"
        using b by simp
    qed
    moreover have "drop (i' - i) (drop i s) = drop i' s"
      using b(2) by simp
    ultimately show ?thesis
      using True b(1) by (subst specMathString.simps) simp
  qed
qed

lemma parseLoop_first_malformed:
  assumes "q \<noteq> []" and "specOperationLength q = None"
  shows "parseLoop cal (p @ q) roundUp fy (length p) t = (None, t)"
proof -
  have i: "length p < length (p @ q)"
    using assms(1) by simp
  obtain type num isFiscal unit i' where
    r: "readOp (p @ q) (length p) = (type, num, isFiscal, unit, i')"
    by (cases "readOp (p @ q) (length p)") auto
  have "rejected type num unit"
  proof (rule ccontr)
    assume "\<not> rejected type num unit"
    then have "specOperationLength (drop (length p) (p @ q)) = Some (i' - length p)"
      using accepted_round_is_operation [OF i r] by simp
    then show False
      using assms(2) by simp
  qed
  then show ?thesis
    using parseLoop_reject [OF i r] by simp
qed

text \<open>No sentence of the grammar contains the character of the separator, so the
  evaluator rejects every math string that does.\<close>

lemma unit_not_bar: "[x] \<in> set UNITS \<Longrightarrow> x \<noteq> CHR ''|''"
  by (auto simp: UNITS_def)

lemma operation_has_no_bar:
  assumes "specOperationLength s = Some k"
  shows "CHR ''|'' \<notin> set (take k s)"
proof -
  obtain c r where s: "s = c # r"
    using assms by (cases s) (auto simp: specOperationLength_def)
  define count where "count = takeWhile isDigit r"
  define r1 where "r1 = dropWhile isDigit r"
  define fiscal where "fiscal \<longleftrightarrow> r1 \<noteq> [] \<and> hd r1 = CHR ''f''"
  define r2 where "r2 = (if fiscal then tl r1 else r1)"
  have "c \<in> set ''/+-'' \<and> r2 \<noteq> [] \<and> [hd r2] \<in> set UNITS
        \<and> k = 1 + length count + (if fiscal then 1 else 0) + 1"
    using assms unfolding s specOperationLength_def Let_def count_def r1_def fiscal_def r2_def
    by (auto split: if_splits)
  then have c: "c \<in> set ''/+-''" and r2: "r2 \<noteq> []" and u: "[hd r2] \<in> set UNITS"
    and k: "k = 1 + length count + (if fiscal then 1 else 0) + 1"
    by simp_all
  have cnt: "CHR ''|'' \<notin> set count"
    using set_takeWhileD [of "CHR ''|''" isDigit r] by (auto simp: count_def isDigit_def)
  have ub: "hd r2 \<noteq> CHR ''|''"
    using unit_not_bar [OF u] .
  have r: "r = count @ r1"
    by (simp add: count_def r1_def)
  have tk: "take (k - 1) r = count @ take (k - 1 - length count) r1"
    by (subst r) (simp add: k)
  have "CHR ''|'' \<notin> set (take (k - 1 - length count) r1)"
  proof (cases fiscal)
    case True
    then obtain r' where r1: "r1 = CHR ''f'' # r'"
      unfolding fiscal_def by (cases r1) auto
    have "r2 = r'"
      using True r1 by (simp add: r2_def)
    then obtain x r'' where "r' = x # r''" and "x \<noteq> CHR ''|''"
      using r2 ub by (cases r') auto
    then show ?thesis
      using True r1 by (simp add: k)
  next
    case False
    then have "r2 = r1"
      by (simp add: r2_def)
    then obtain x r'' where "r1 = x # r''" and "x \<noteq> CHR ''|''"
      using r2 ub by (cases r1) auto
    then show ?thesis
      using False by (simp add: k)
  qed
  then have "CHR ''|'' \<notin> set (take (k - 1) r)"
    using cnt tk by simp
  moreover have "c \<noteq> CHR ''|''"
    using c by auto
  moreover have "take k s = c # take (k - 1) r"
    using s k by (simp add: take_Cons')
  ultimately show ?thesis
    by simp
qed

lemma grammar_has_no_bar: "specMathString s \<Longrightarrow> CHR ''|'' \<notin> set s"
proof (induction s rule: specMathString.induct)
  case (1 s)
  show ?case
  proof (cases "s = []")
    case True
    then show ?thesis by simp
  next
    case False
    then obtain k where k: "specOperationLength s = Some k" and rest: "specMathString (drop k s)"
      using "1.prems" by (subst (asm) specMathString.simps) (auto split: option.splits)
    have "CHR ''|'' \<notin> set (drop k s)"
      using "1.IH" [OF False k rest] .
    moreover have "CHR ''|'' \<notin> set (take k s)"
      using operation_has_no_bar [OF k] .
    ultimately have "CHR ''|'' \<notin> set (take k s) \<union> set (drop k s)"
      by simp
    then show ?thesis
      by (metis set_append append_take_drop_id)
  qed
qed

lemma bar_is_rejected:
  assumes "CHR ''|'' \<in> set mathString"
  shows "fst (parseDateMath cal mathString t roundUp fy) = None"
proof -
  have "\<not> isWhiteSpace CHR ''|''"
    by (simp add: isWhiteSpace_def)
  then have "CHR ''|'' \<in> set (removeWhiteSpace mathString)"
    using assms by (simp add: removeWhiteSpace_def)
  then have "\<not> specMathString (removeWhiteSpace mathString)"
    using grammar_has_no_bar by blast
  then have "fst (parseLoop cal (removeWhiteSpace mathString) roundUp fy 0 t) = None"
    using parseLoop_accepts_grammar [of cal "removeWhiteSpace mathString" roundUp fy 0 t]
    by fastforce
  then show ?thesis
    by (simp add: parseDateMath_def)
qed

section \<open>Further facts about the evaluator\<close>

text \<open>One operation with a one-digit count is applied with that count.\<close>

lemma one_digit_add:
  assumes "u \<in> set UNITS" and "isDigit d"
  shows "parseDateMath cal (CHR ''+'' # d # u) t roundUp fy =
         (Some (add cal (Num (int (digitVal d))) u t), add cal (Num (int (digitVal d))) u t)"
proof -
  have p: "MATH_OP_TYPE_MAP ''+'' = Some 1"
    by (simp add: MATH_OP_TYPE_MAP_def)
  show ?thesis
    using parse_op_digit_unit [OF p assms, of cal t roundUp fy] by (simp add: applyOp_def)
qed

lemma one_digit_subtract:
  assumes "u \<in> set UNITS" and "isDigit d"
  shows "parseDateMath cal (CHR ''-'' # d # u) t roundUp fy =
         (Some (subtract cal (Num (int (digitVal d))) u t),
          subtract cal (Num (int (digitVal d))) u t)"
proof -
  have m: "MATH_OP_TYPE_MAP ''-'' = Some 2"
    by (simp add: MATH_OP_TYPE_MAP_def)
  show ?thesis
    using parse_op_digit_unit [OF m assms, of cal t roundUp fy] by (simp add: applyOp_def)
qed

text \<open>With a one-digit count, subtracting after adding gives the starting DateTime back
  wherever the calendar's \<^verbatim>\<open>subtract\<close> undoes its \<^verbatim>\<open>add\<close>.\<close>

lemma one_digit_round_trip:
  assumes "u \<in> set UNITS" and "isDigit d"
    and "subtract cal (Num (int (digitVal d))) u (add cal (Num (int (digitVal d))) u t) = t"
  shows "parseDateMath cal (CHR ''-'' # d # u)
           (snd (parseDateMath cal (CHR ''+'' # d # u) t roundUp fy)) roundUp fy = (Some t, t)"
  using assms by (simp add: one_digit_add one_digit_subtract)

text \<open>A count of two digits or more is never read: the second digit is taken for the unit,
  whatever the operator.\<close>

lemma count_of_two_digits_rejected:
  assumes d1: "isDigit d1" and d2: "isDigit d2"
    and c: "\<not> isWhiteSpace c" and rest: "\<forall>x\<in>set rest. \<not> isWhiteSpace x"
  shows "parseDateMath cal (c # d1 # d2 # rest) t roundUp fy = (None, t)"
proof -
  let ?s = "c # d1 # d2 # rest"
  have "\<forall>x\<in>set ?s. \<not> isWhiteSpace x"
    using d1 d2 c rest by (simp add: isDigit_not_space)
  then have s: "removeWhiteSpace ?s = ?s"
    by (rule strip_id)
  have nf: "charAt ?s (Suc (Suc 0)) \<noteq> ''f''"
    using digit_not_f [OF d2] by (simp add: charAt_def)
  have r: "readOp ?s 0 = (MATH_OP_TYPE_MAP [c], Num (int (digitVal d1)), False, [d2], 3)"
    using readOp_count [of 0 ?s, OF _ _ _ nf] d1 by (simp add: charAt_def numeral_3_eq_3)
  have "rejected (MATH_OP_TYPE_MAP [c]) (Num (int (digitVal d1))) [d2]"
    using digit_not_unit [OF d2] by (simp add: rejected_def)
  then have "parseLoop cal ?s roundUp fy 0 t = (None, t)"
    using parseLoop_reject [OF _ r] by simp
  then show ?thesis
    by (simp only: parseDateMath_def Let_def s)
qed

text \<open>\<^verbatim>\<open>roundToFiscal\<close>, branch by branch.\<close>

lemma roundToFiscal_year_down:
  "roundToFiscal cal fy t ''y'' False =
     (Some (startOf cal ''M'' (subtract cal (Num (js_rem (month cal t - fy + 12) 12)) ''M'' t)),
      startOf cal ''M'' (subtract cal (Num (js_rem (month cal t - fy + 12) 12)) ''M'' t))"
  by (subst roundToFiscal.simps) (simp add: Let_def)

lemma roundToFiscal_quarter_down:
  "roundToFiscal cal fy t ''Q'' False =
     (Some (startOf cal ''M'' (subtract cal (Num (js_rem (month cal t - fy + 3) 3)) ''M'' t)),
      startOf cal ''M'' (subtract cal (Num (js_rem (month cal t - fy + 3) 3)) ''M'' t))"
  by (subst roundToFiscal.simps) (simp add: Let_def)

lemma roundToFiscal_down_returns:
  "unit = ''y'' \<or> unit = ''Q'' \<Longrightarrow> fst (roundToFiscal cal fy t unit False) \<noteq> None"
  by (auto simp: roundToFiscal_year_down roundToFiscal_quarter_down)

lemma roundToFiscal_year_up:
  "roundToFiscal cal fy t ''y'' True =
     (Some (endOf cal ''M'' (add cal (Num 11) ''M'' (snd (roundToFiscal cal fy t ''y'' False)))),
      endOf cal ''M'' (add cal (Num 11) ''M'' (snd (roundToFiscal cal fy t ''y'' False))))"
  by (subst roundToFiscal.simps) (simp add: Let_def roundToFiscal_year_down)

lemma roundToFiscal_quarter_up:
  "roundToFiscal cal fy t ''Q'' True =
     (Some (endOf cal ''M'' (add cal (Num 2) ''M'' (snd (roundToFiscal cal fy t ''Q'' False)))),
      endOf cal ''M'' (add cal (Num 2) ''M'' (snd (roundToFiscal cal fy t ''Q'' False))))"
  by (subst roundToFiscal.simps) (simp add: Let_def roundToFiscal_quarter_down)

lemma roundToFiscal_other_unit:
  "unit \<noteq> ''y'' \<Longrightarrow> unit \<noteq> ''Q'' \<Longrightarrow> roundToFiscal cal fy t unit roundUp = (None, t)"
  by (subst roundToFiscal.simps) simp

text \<open>In the year branch the operand of \<^verbatim>\<open>%\<close> is never negative for months and start
  months in 0..11, so the remainder is the mathematical one.\<close>

lemma js_rem_nonneg: "0 \<le> a \<Longrightarrow> 0 < b \<Longrightarrow> js_rem a b = a mod b"
  by (cases "a = 0") (simp_all add: js_rem_def)

lemma roundToFiscal_year_down_mod:
  assumes "0 \<le> month cal t" "month cal t \<le> 11" "0 \<le> fy" "fy \<le> 11"
  shows "snd (roundToFiscal cal fy t ''y'' False) =
         startOf cal ''M'' (subtract cal (Num ((month cal t - fy + 12) mod 12)) ''M'' t)"
  using assms by (simp add: roundToFiscal_year_down js_rem_nonneg)

text \<open>In the quarter branch it is negative as soon as the start month is more than three
  months after the current month; the DateTime then moves forward.\<close>

lemma roundToFiscal_quarter_down_negative:
  "month cal t = 0 \<Longrightarrow>
   snd (roundToFiscal cal 11 t ''Q'' False) = startOf cal ''M'' (subtract cal (Num (- 2)) ''M'' t)"
  by (simp add: roundToFiscal_quarter_down js_rem_def)

section \<open>The claims\<close>

text \<open>
  C1 (the code departs from the claim). The claim: a math string made of \<open>+\<close>, a run of one
  to ten digits and a unit code advances the timestamp by the whole run read as one count.
  The loop of \<^verbatim>\<open>getNum\<close> runs while the character read is \<^emph>\<open>not\<close> a number, so it stops
  after the first digit; the second digit is then read as the unit and the string is
  rejected. At \<open>+12d\<close> the evaluator returns \<^verbatim>\<open>undefined\<close> and leaves the timestamp as it
  was, for every calendar and every timestamp.
\<close>

theorem two_digit_count_is_rejected:
  "parseDateMath cal ''+12d'' t roundUp fy = (None, t)"
proof -
  have s: "removeWhiteSpace ''+12d'' = ''+12d''"
    by code_simp
  have r: "readOp ''+12d'' 0 = (Some 1, Num 1, False, ''2'', 3)"
    by code_simp
  have "rejected (Some 1) (Num 1) ''2''"
    by code_simp
  then have "parseLoop cal ''+12d'' roundUp fy 0 t = (None, t)"
    using parseLoop_reject [OF _ r] by simp
  then show ?thesis
    by (simp only: parseDateMath_def s Let_def)
qed

text \<open>
  C2 (amended). The claim: a malformed math string makes the evaluator return no result, and
  the timestamp the caller supplied undergoes no partial shift. The first half holds: a
  string that, white space removed, is not a sentence of the grammar gets \<^verbatim>\<open>undefined\<close>.
  The second half does not: the DateTime is shifted in place as the scan goes, and nothing
  undoes it. When the evaluator accepts \<open>p\<close> and what follows does not start with an
  operation, the supplied DateTime is left as the operations of \<open>p\<close> shifted it.
\<close>

theorem malformed_is_terminal_but_shift_stays:
  "(\<not> specMathString (removeWhiteSpace s) \<longrightarrow> fst (parseDateMath cal s t roundUp fy) = None)
   \<and> (fst (parseDateMath cal p t roundUp fy) = Some t1
        \<and> removeWhiteSpace q \<noteq> [] \<and> specOperationLength (removeWhiteSpace q) = None
      \<longrightarrow> parseDateMath cal (p @ q) t roundUp fy = (None, t1))"
proof (intro conjI impI)
  assume "\<not> specMathString (removeWhiteSpace s)"
  then have "fst (parseLoop cal (removeWhiteSpace s) roundUp fy 0 t) = None"
    using parseLoop_accepts_grammar [of cal "removeWhiteSpace s" roundUp fy 0 t] by fastforce
  then show "fst (parseDateMath cal s t roundUp fy) = None"
    by (simp add: parseDateMath_def removeWhiteSpace_def)
next
  assume h: "fst (parseDateMath cal p t roundUp fy) = Some t1
        \<and> removeWhiteSpace q \<noteq> [] \<and> specOperationLength (removeWhiteSpace q) = None"
  then have "fst (parseLoop cal (removeWhiteSpace p) roundUp fy 0 t) = Some t1"
    by (simp add: parseDateMath_def removeWhiteSpace_def)
  then have "parseLoop cal (removeWhiteSpace p @ removeWhiteSpace q) roundUp fy 0 t
           = parseLoop cal (removeWhiteSpace p @ removeWhiteSpace q) roundUp fy (length (removeWhiteSpace p)) t1"
    by (intro parseLoop_append) simp_all
  also have "\<dots> = (None, t1)"
    using h by (intro parseLoop_first_malformed) simp_all
  finally show "parseDateMath cal (p @ q) t roundUp fy = (None, t1)"
    by (simp add: parseDateMath_def removeWhiteSpace_def)
qed

theorem malformed_is_terminal_but_shift_stays_witness:
  "\<not> specMathString (removeWhiteSpace ''+1d+1x'')
   \<and> fst (parseDateMath (utcCalendar 0 (\<lambda>text. 0)) ''+1d+1x'' 0 False 0) = None
   \<and> fst (parseDateMath (utcCalendar 0 (\<lambda>text. 0)) ''+1d'' 0 False 0) = Some 86400000
   \<and> removeWhiteSpace ''+1x'' \<noteq> []
   \<and> specOperationLength (removeWhiteSpace ''+1x'') = None
   \<and> parseDateMath (utcCalendar 0 (\<lambda>text. 0)) (''+1d'' @ ''+1x'') 0 False 0 = (None, 86400000)"
proof -
  have a: "\<not> specMathString (removeWhiteSpace ''+1d+1x'')"
    by code_simp
  have b: "fst (parseDateMath (utcCalendar 0 (\<lambda>text. 0)) ''+1d'' 0 False 0) = Some 86400000"
    by code_simp
  have c: "removeWhiteSpace ''+1x'' \<noteq> []" "specOperationLength (removeWhiteSpace ''+1x'') = None"
    by code_simp+
  show ?thesis
    using malformed_is_terminal_but_shift_stays
            [of "''+1d+1x''" "utcCalendar 0 (\<lambda>text. 0)" 0 False 0 "''+1d''" 86400000 "''+1x''"]
          a b c
    by blast
qed

text \<open>The claim as it stands fails at \<open>+1d+1x\<close> on the timestamp 0: no result is returned,
  and the supplied timestamp has moved one day.\<close>

theorem partial_shift_counterexample:
  "fst (parseDateMath (utcCalendar 0 (\<lambda>text. 0)) ''+1d+1x'' 0 False 0) = None
   \<and> snd (parseDateMath (utcCalendar 0 (\<lambda>text. 0)) ''+1d+1x'' 0 False 0) = 86400000
   \<and> snd (parseDateMath (utcCalendar 0 (\<lambda>text. 0)) ''+1d+1x'' 0 False 0) \<noteq> 0"
  by code_simp

text \<open>
  C3 (the code departs from the claim). The claim: a round operation with the fiscal flag
  and a unit other than \<open>y\<close> and \<open>Q\<close>, as in \<open>/fd\<close>, makes the whole expression fail.
  \<^verbatim>\<open>roundToFiscal\<close> does return \<^verbatim>\<open>undefined\<close> for such a unit, but the evaluator drops
  what it returns and goes on: at \<open>/fd\<close> it returns the timestamp, not rounded at all.
\<close>

theorem fiscal_round_of_day_returns_timestamp_unrounded:
  "parseDateMath cal ''/fd'' t roundUp fy = (Some t, t)
   \<and> roundToFiscal cal fy t ''d'' roundUp = (None, t)"
proof -
  have s: "removeWhiteSpace ''/fd'' = ''/fd''"
    by code_simp
  have r: "readOp ''/fd'' 0 = (Some 0, Num 1, True, ''d'', 3)"
    by code_simp
  have a: "\<not> rejected (Some 0) (Num 1) ''d''"
    by code_simp
  have f: "roundToFiscal cal fy t ''d'' roundUp = (None, t)"
    by (subst roundToFiscal.simps) simp
  have "parseLoop cal ''/fd'' roundUp fy 0 t =
        parseLoop cal ''/fd'' roundUp fy 3 (applyOp cal roundUp fy (Some 0) (Num 1) True ''d'' t)"
    using parseLoop_accept [OF _ r a] by simp
  also have "\<dots> = (Some t, t)"
    by (simp add: parseLoop_end applyOp_def f)
  finally have "parseDateMath cal ''/fd'' t roundUp fy = (Some t, t)"
    by (simp only: parseDateMath_def s Let_def)
  then show ?thesis
    using f by simp
qed

text \<open>
  C4 (amended). The claim: for a text that starts with \<open>now\<close> the anchor is the current
  instant and the math string is what follows \<open>now\<close> up to the separator \<open>||\<close>. The
  anchor is as claimed. The math string is all that follows \<open>now\<close>, to the end of
  the text: \<^verbatim>\<open>text.substring(3)\<close>, with no regard for the split. A separator after
  \<open>now\<close> is part of the math string, and the evaluator rejects it: a text that starts
  with \<open>now\<close> and contains \<open>||\<close> gets no result.
\<close>

theorem now_math_string_is_the_whole_remainder:
  assumes "startsWith text NOW_STRING"
  shows "getTime cal timezone text left right = dateTimeForTimeZone cal timezone
       \<and> getMathString text right = drop 3 text
       \<and> parse cal (Str text) roundUp timezone fy =
           (if drop 3 text = [] then Some (dateTimeForTimeZone cal timezone)
            else fst (parseDateMath cal (drop 3 text) (dateTimeForTimeZone cal timezone) roundUp
                        (case fy of None \<Rightarrow> 0 | Some m \<Rightarrow> m)))
       \<and> (includesStr text ''||'' \<longrightarrow> parse cal (Str text) roundUp timezone fy = None)"
proof -
  have ne: "text \<noteq> []"
    using assms by (auto simp: NOW_STRING_def)
  have t: "getTime cal timezone text l r = dateTimeForTimeZone cal timezone" for l r
    using assms by (simp add: getTime_def)
  have m: "getMathString text r = drop 3 text" for r
    using assms by (simp add: getMathString_def substringFrom_def NOW_STRING_def numeral_3_eq_3)
  have p: "parse cal (Str text) roundUp timezone fy =
           (if drop 3 text = [] then Some (dateTimeForTimeZone cal timezone)
            else fst (parseDateMath cal (drop 3 text) (dateTimeForTimeZone cal timezone) roundUp
                        (case fy of None \<Rightarrow> 0 | Some m \<Rightarrow> m)))"
    using ne by (simp add: t m Let_def)
  have "parse cal (Str text) roundUp timezone fy = None" if i: "includesStr text ''||''"
  proof -
    obtain r where r: "text = ''now'' @ r"
      using assms by (auto simp: startsWith_iff NOW_STRING_def)
    obtain a b where "text = a @ ''||'' @ b"
      using i by (auto simp: includesStr_iff)
    then have "CHR ''|'' \<in> set text"
      by simp
    then have bar: "CHR ''|'' \<in> set (drop 3 text)"
      using r by auto
    then have "drop 3 text \<noteq> []"
      by auto
    then show ?thesis
      using p bar_is_rejected [OF bar] by simp
  qed
  then show ?thesis
    using t m p by blast
qed

theorem now_math_string_is_the_whole_remainder_witness:
  "startsWith ''now-1d/d'' NOW_STRING
   \<and> getTime (utcCalendar 1609459200000 (\<lambda>text. 0)) None ''now-1d/d'' ''now-1d/d'' None
       = 1609459200000
   \<and> getMathString ''now-1d/d'' None = ''-1d/d''
   \<and> parse (utcCalendar 1609459200000 (\<lambda>text. 0)) (Str ''now-1d/d'') False None None
       = Some 1609372800000
   \<and> startsWith ''now||/d'' NOW_STRING
   \<and> includesStr ''now||/d'' ''||''
   \<and> parse (utcCalendar 1609459200000 (\<lambda>text. 0)) (Str ''now||/d'') False None None = None"
proof -
  have a: "startsWith ''now-1d/d'' NOW_STRING"
    by code_simp
  have b: "fst (parseDateMath (utcCalendar 1609459200000 (\<lambda>text. 0)) ''-1d/d'' 1609459200000
                  False 0) = Some 1609372800000"
    by code_simp
  have c: "dateTimeForTimeZone (utcCalendar 1609459200000 (\<lambda>text. 0)) None = 1609459200000"
    by (simp add: utcCalendar_def)
  have a': "startsWith ''now||/d'' NOW_STRING"
    by code_simp
  have i: "includesStr ''now||/d'' ''||''"
    by code_simp
  have first: "getTime (utcCalendar 1609459200000 (\<lambda>text. 0)) None ''now-1d/d'' ''now-1d/d'' None
       = 1609459200000
   \<and> getMathString ''now-1d/d'' None = ''-1d/d''
   \<and> parse (utcCalendar 1609459200000 (\<lambda>text. 0)) (Str ''now-1d/d'') False None None
       = Some 1609372800000"
    using now_math_string_is_the_whole_remainder
            [OF a, of "utcCalendar 1609459200000 (\<lambda>text. 0)" None "''now-1d/d''" None False None]
          b c
    by simp
  have second: "parse (utcCalendar 1609459200000 (\<lambda>text. 0)) (Str ''now||/d'') False None None
                = None"
    using now_math_string_is_the_whole_remainder
            [OF a', of "utcCalendar 1609459200000 (\<lambda>text. 0)" None "''now||/d''" None False None]
          i
    by blast
  show ?thesis
    using a a' i first second by blast
qed

text \<open>The claim as it stands fails at \<open>now||+1d\<close>: the split gives \<open>now\<close> and \<open>+1d\<close>,
  what follows \<open>now\<close> up to the separator is empty, yet the math string is \<open>||+1d\<close>, it
  contains the separator, and the evaluator rejects it.\<close>

theorem now_separator_counterexample:
  "split ''now||+1d'' = [''now'', ''+1d'']
   \<and> getMathString ''now||+1d'' (Some ''+1d'') = ''||+1d''
   \<and> includesStr (getMathString ''now||+1d'' (Some ''+1d'')) ''||''
   \<and> parse (utcCalendar 1609459200000 (\<lambda>text. 0)) (Str ''now||+1d'') False None None = None"
  by code_simp

text \<open>
  C5 (the code departs from the claim). The claim: for every unit and every count
  \<open>n \<ge> 0\<close>, adding \<open>n\<close> units and then subtracting them gives the timestamp back (months
  and years apart). A count of two digits or more is never read (the defect of C1), so the
  first evaluation already returns \<^verbatim>\<open>undefined\<close>: at \<open>n = 10\<close> and the unit \<open>d\<close> neither
  \<open>+10d\<close> nor \<open>-10d\<close> gives a timestamp. For one-digit counts the round trip is
  \<open>one_digit_round_trip\<close>.
\<close>

theorem round_trip_fails_at_count_ten:
  "parseDateMath cal ''+10d'' t roundUp fy = (None, t)
   \<and> parseDateMath cal ''-10d'' t roundUp fy = (None, t)"
proof -
  have s: "removeWhiteSpace ''+10d'' = ''+10d''" "removeWhiteSpace ''-10d'' = ''-10d''"
    by code_simp+
  have r: "readOp ''+10d'' 0 = (Some 1, Num 1, False, ''0'', 3)"
    by code_simp
  have r': "readOp ''-10d'' 0 = (Some 2, Num 1, False, ''0'', 3)"
    by code_simp
  have j: "rejected (Some 1) (Num 1) ''0''" "rejected (Some 2) (Num 1) ''0''"
    by code_simp+
  have "parseLoop cal ''+10d'' roundUp fy 0 t = (None, t)"
    using parseLoop_reject [OF _ r j(1)] by simp
  moreover have "parseLoop cal ''-10d'' roundUp fy 0 t = (None, t)"
    using parseLoop_reject [OF _ r' j(2)] by simp
  ultimately show ?thesis
    by (simp only: parseDateMath_def s Let_def)
qed

text \<open>
  C6. A round operation accepts no count but 1: for every unit code \<open>u\<close>, \<open>/\<close> followed by
  a run of digits other than \<open>1\<close> and by \<open>u\<close> returns no result, while \<open>/u\<close> and \<open>/1u\<close>
  return the same timestamp, rounded to the unit.
\<close>

theorem round_accepts_only_count_one:
  assumes "u \<in> set UNITS"
  shows "(ds \<noteq> [] \<and> list_all isDigit ds \<and> ds \<noteq> ''1'' \<longrightarrow>
            parseDateMath cal (''/'' @ ds @ u) t roundUp fy = (None, t))
       \<and> parseDateMath cal (''/1'' @ u) t roundUp fy = parseDateMath cal (''/'' @ u) t roundUp fy
       \<and> fst (parseDateMath cal (''/'' @ u) t roundUp fy)
           = Some (if roundUp then endOf cal u t else startOf cal u t)"
proof -
  have op: "MATH_OP_TYPE_MAP ''/'' = Some 0"
    by (simp add: MATH_OP_TYPE_MAP_def)
  have one: "isDigit CHR ''1''" "int (digitVal CHR ''1'') = 1"
    by (simp_all add: isDigit_def digitVal_def)
  have a: "parseDateMath cal (''/'' @ u) t roundUp fy =
           (Some (applyOp cal roundUp fy (Some 0) (Num 1) False u t),
            applyOp cal roundUp fy (Some 0) (Num 1) False u t)"
    using parse_op_unit [OF op assms] by simp
  have b: "parseDateMath cal (''/1'' @ u) t roundUp fy =
           (Some (applyOp cal roundUp fy (Some 0) (Num 1) False u t),
            applyOp cal roundUp fy (Some 0) (Num 1) False u t)"
    using parse_op_digit_unit [OF op assms one(1), of cal t roundUp fy] one(2) by simp
  show ?thesis
    using round_bad_count [OF assms, of ds cal t roundUp fy] a b
    by (simp add: applyOp_def)
qed

theorem round_accepts_only_count_one_witness:
  "''d'' \<in> set UNITS
   \<and> ''2'' \<noteq> [] \<and> list_all isDigit ''2'' \<and> ''2'' \<noteq> ''1''
   \<and> parseDateMath (utcCalendar 0 (\<lambda>text. 0)) ''/2d'' 1610668800123 False 0
       = (None, 1610668800123)
   \<and> parseDateMath (utcCalendar 0 (\<lambda>text. 0)) ''/1d'' 1610668800123 False 0
       = parseDateMath (utcCalendar 0 (\<lambda>text. 0)) ''/d'' 1610668800123 False 0
   \<and> fst (parseDateMath (utcCalendar 0 (\<lambda>text. 0)) ''/d'' 1610668800123 False 0)
       = Some 1610668800000"
proof -
  have u: "''d'' \<in> set UNITS"
    by (simp add: UNITS_def)
  have d: "''2'' \<noteq> [] \<and> list_all isDigit ''2'' \<and> ''2'' \<noteq> ''1''"
    by (simp add: isDigit_def)
  have v: "startOf (utcCalendar 0 (\<lambda>text. 0)) ''d'' 1610668800123 = 1610668800000"
    by code_simp
  show ?thesis
    using round_accepts_only_count_one
            [OF u, of "''2''" "utcCalendar 0 (\<lambda>text. 0)" 1610668800123 False 0] u d v
    by simp
qed

text \<open>
  C7 (the code departs from the claim). The claim: fiscal round-down moves the timestamp
  backward by \<open>(currentMonth - fiscalStartMonth + 12) mod 12\<close> months for the year and by
  the same with modulus 3 for the quarter, then snaps to the start of the month; round-up
  adds 11 or 2 months to the round-down boundary and snaps to the end of the month. The year
  branch and both round-up branches do so (\<open>roundToFiscal_year_down_mod\<close>,
  \<open>roundToFiscal_year_up\<close>, \<open>roundToFiscal_quarter_up\<close>). The quarter branch computes
  \<^verbatim>\<open>(month - fyStartMonth + 3) % 3\<close>: it adds 3 where the year branch adds 12, and
  the remainder of a negative operand is negative. On 2021-01-15 with a fiscal year that
  starts in December (month 11) it subtracts \<open>-2\<close> months: the result is 2021-03-01, two
  months ahead, where one month back, 2020-12-01, is the start of the fiscal quarter.
\<close>

theorem fiscal_quarter_round_down_moves_forward:
  "civilFromDays (1610668800000 div msPerDay) = (2021, 1, 15)
   \<and> month (utcCalendar 0 (\<lambda>text. 0)) 1610668800000 = 0
   \<and> js_rem (0 - 11 + 3) 3 = - 2
   \<and> roundToFiscal (utcCalendar 0 (\<lambda>text. 0)) 11 1610668800000 ''Q'' False
       = (Some 1614556800000, 1614556800000)
   \<and> civilFromDays (1614556800000 div msPerDay) = (2021, 3, 1)
   \<and> startOf (utcCalendar 0 (\<lambda>text. 0)) ''M''
        (subtract (utcCalendar 0 (\<lambda>text. 0)) (Num ((0 - 11 + 12) mod 3)) ''M'' 1610668800000)
       = 1606780800000
   \<and> civilFromDays (1606780800000 div msPerDay) = (2020, 12, 1)"
  by code_simp

text \<open>
  C8. Rounding to the day is idempotent: where the calendar's \<^verbatim>\<open>startOf('d')\<close> and
  \<^verbatim>\<open>endOf('d')\<close> applied twice to the timestamp give what they give once, evaluating
  \<open>/d\<close> on the result of \<open>/d\<close> returns that result again.
\<close>

theorem rounding_to_day_idempotent:
  assumes "startOf cal ''d'' (startOf cal ''d'' t) = startOf cal ''d'' t"
      and "endOf cal ''d'' (endOf cal ''d'' t) = endOf cal ''d'' t"
  shows "fst (parseDateMath cal ''/d'' t roundUp fy) = Some (snd (parseDateMath cal ''/d'' t roundUp fy))
       \<and> parseDateMath cal ''/d'' (snd (parseDateMath cal ''/d'' t roundUp fy)) roundUp fy
           = parseDateMath cal ''/d'' t roundUp fy"
proof -
  have op: "MATH_OP_TYPE_MAP ''/'' = Some 0"
    by (simp add: MATH_OP_TYPE_MAP_def)
  have d: "''d'' \<in> set UNITS"
    by (simp add: UNITS_def)
  have a: "parseDateMath cal ''/d'' x roundUp fy =
           (Some (if roundUp then endOf cal ''d'' x else startOf cal ''d'' x),
            if roundUp then endOf cal ''d'' x else startOf cal ''d'' x)" for x
    using parse_op_unit [OF op d, of cal x roundUp fy] by (simp add: applyOp_def)
  show ?thesis
    using assms by (simp add: a)
qed

theorem rounding_to_day_idempotent_witness:
  "startOf (utcCalendar 0 (\<lambda>text. 0)) ''d'' (startOf (utcCalendar 0 (\<lambda>text. 0)) ''d'' 1610668800123)
     = startOf (utcCalendar 0 (\<lambda>text. 0)) ''d'' 1610668800123
   \<and> endOf (utcCalendar 0 (\<lambda>text. 0)) ''d'' (endOf (utcCalendar 0 (\<lambda>text. 0)) ''d'' 1610668800123)
     = endOf (utcCalendar 0 (\<lambda>text. 0)) ''d'' 1610668800123
   \<and> parseDateMath (utcCalendar 0 (\<lambda>text. 0)) ''/d'' 1610668800123 True 0
       = (Some 1610755199999, 1610755199999)
   \<and> parseDateMath (utcCalendar 0 (\<lambda>text. 0)) ''/d'' 1610755199999 True 0
       = (Some 1610755199999, 1610755199999)"
proof -
  have a: "startOf (utcCalendar 0 (\<lambda>text. 0)) ''d''
             (startOf (utcCalendar 0 (\<lambda>text. 0)) ''d'' 1610668800123)
           = startOf (utcCalendar 0 (\<lambda>text. 0)) ''d'' 1610668800123"
    by code_simp
  have b: "endOf (utcCalendar 0 (\<lambda>text. 0)) ''d''
             (endOf (utcCalendar 0 (\<lambda>text. 0)) ''d'' 1610668800123)
           = endOf (utcCalendar 0 (\<lambda>text. 0)) ''d'' 1610668800123"
    by code_simp
  have c: "parseDateMath (utcCalendar 0 (\<lambda>text. 0)) ''/d'' 1610668800123 True 0
           = (Some 1610755199999, 1610755199999)"
    by code_simp
  show ?thesis
    using rounding_to_day_idempotent [OF a b, of True 0] a b c by simp
qed

text \<open>
  C9. \<^verbatim>\<open>isMathString\<close> is true of a string exactly when the string starts with \<open>now\<close> or
  contains \<open>||\<close>; it is true of \<open>now-1h\<close> and of \<open>2021-01-01||+1d\<close>, false of
  \<open>2021-01-01\<close>.
\<close>

theorem isMathString_iff:
  "isMathString (Str text) = ((\<exists>r. text = ''now'' @ r) \<or> (\<exists>a b. text = a @ ''||'' @ b))
   \<and> isMathString (Str ''now-1h'')
   \<and> isMathString (Str ''2021-01-01||+1d'')
   \<and> \<not> isMathString (Str ''2021-01-01'')"
proof -
  have "isMathString (Str text) = ((\<exists>r. text = ''now'' @ r) \<or> (\<exists>a b. text = a @ ''||'' @ b))"
    by (simp only: isMathString.simps startsWith_iff includesStr_iff NOW_STRING_def)
  moreover have "isMathString (Str ''now-1h'')"
    by (simp add: NOW_STRING_def)
  moreover have "isMathString (Str ''2021-01-01||+1d'')"
    by (simp add: NOW_STRING_def)
  moreover have "\<not> isMathString (Str ''2021-01-01'')"
    by (simp add: NOW_STRING_def)
  ultimately show ?thesis by blast
qed

text \<open>
  C10. On an add or a subtract operation the fiscal flag is accepted before each of the
  eight unit codes and changes nothing: \<open>+1fu\<close> gives what \<open>+1u\<close> gives, the timestamp
  one unit later, and \<open>-1fu\<close> what \<open>-1u\<close> gives, the timestamp one unit earlier.
\<close>

theorem fiscal_flag_ignored_by_add_and_subtract:
  assumes "u \<in> set UNITS"
  shows "parseDateMath cal (''+1f'' @ u) t roundUp fy = parseDateMath cal (''+1'' @ u) t roundUp fy
       \<and> parseDateMath cal (''-1f'' @ u) t roundUp fy = parseDateMath cal (''-1'' @ u) t roundUp fy
       \<and> fst (parseDateMath cal (''+1f'' @ u) t roundUp fy) = Some (add cal (Num 1) u t)
       \<and> fst (parseDateMath cal (''-1f'' @ u) t roundUp fy) = Some (subtract cal (Num 1) u t)"
proof -
  have p: "MATH_OP_TYPE_MAP ''+'' = Some 1" and m: "MATH_OP_TYPE_MAP ''-'' = Some 2"
    by (simp_all add: MATH_OP_TYPE_MAP_def)
  have one: "isDigit CHR ''1''" "int (digitVal CHR ''1'') = 1"
    by (simp_all add: isDigit_def digitVal_def)
  have k: "(1::nat) = 0 \<longrightarrow> CHR ''1'' = CHR ''1''" "(2::nat) = 0 \<longrightarrow> CHR ''1'' = CHR ''1''"
    by simp_all
  show ?thesis
    using parse_op_digit_unit [OF p assms one(1) k(1), of cal t roundUp fy]
          parse_op_digit_fiscal_unit [OF p assms one(1) k(1), of cal t roundUp fy]
          parse_op_digit_unit [OF m assms one(1) k(2), of cal t roundUp fy]
          parse_op_digit_fiscal_unit [OF m assms one(1) k(2), of cal t roundUp fy]
    by (simp add: one(2) applyOp_def)
qed

theorem fiscal_flag_ignored_by_add_and_subtract_witness:
  "''M'' \<in> set UNITS
   \<and> parseDateMath (utcCalendar 0 (\<lambda>text. 0)) ''+1fM'' 1610668800123 False 0
       = parseDateMath (utcCalendar 0 (\<lambda>text. 0)) ''+1M'' 1610668800123 False 0
   \<and> parseDateMath (utcCalendar 0 (\<lambda>text. 0)) ''-1fM'' 1610668800123 False 0
       = parseDateMath (utcCalendar 0 (\<lambda>text. 0)) ''-1M'' 1610668800123 False 0
   \<and> fst (parseDateMath (utcCalendar 0 (\<lambda>text. 0)) ''+1fM'' 1610668800123 False 0)
       = Some 1613347200123
   \<and> fst (parseDateMath (utcCalendar 0 (\<lambda>text. 0)) ''-1fM'' 1610668800123 False 0)
       = Some 1607990400123"
proof -
  have u: "''M'' \<in> set UNITS"
    by (simp add: UNITS_def)
  have a: "add (utcCalendar 0 (\<lambda>text. 0)) (Num 1) ''M'' 1610668800123 = 1613347200123"
    by code_simp
  have s: "subtract (utcCalendar 0 (\<lambda>text. 0)) (Num 1) ''M'' 1610668800123 = 1607990400123"
    by code_simp
  note th = fiscal_flag_ignored_by_add_and_subtract
              [OF u, of "utcCalendar 0 (\<lambda>text. 0)" 1610668800123 False 0, unfolded a s append_Cons append_Nil]
  show ?thesis
    using u th by blast
qed

end
